theory Spec2Isabelle
  imports Main "HOL-Library.Char_ord" "HOL-Library.List_Lexorder" "HOL-Library.Multiset"
    "HOL-Library.Sublist"
begin

section \<open>Git-Automation: batch onboarding of project folders\<close>

text \<open>
  The program (\<^verbatim>\<open>main.py\<close>) drives two external systems, the \<^verbatim>\<open>git\<close> command line and
  the GitHub API, over the immediate subdirectories of a parent directory. The embedding
  keeps the control flow of every function of the source and takes the two external
  systems as a parameter: a record \<open>sys\<close> of functions over an abstract world \<open>'w\<close>
  (file system, local repositories, hosting service). Every call that leaves the
  program (a subprocess, a file write, an API request) is appended to a trace, every
  emitted log record to a log, so that what the program did can be read off the final
  state.
\<close>

subsection \<open>Data\<close>

text \<open>
  A \<^verbatim>\<open>pathlib.Path\<close> is the list of its components; \<^verbatim>\<open>p / 'x'\<close> appends a component
  and \<^verbatim>\<open>p.name\<close> is the last one. Strings are byte lists (UTF-8), whose lexicographic
  order is the order of the code points that Python compares.
\<close>

type_synonym path = "string list"

definition name :: "path \<Rightarrow> string" where
  "name p = (if p = [] then [] else last p)"

text \<open>\<^verbatim>\<open>str(p)\<close> of an absolute path.\<close>

definition str_path :: "path \<Rightarrow> string" where
  "str_path p = concat (map (\<lambda>c. CHR ''/'' # c) p)"

definition startswith :: "string \<Rightarrow> string \<Rightarrow> bool" where
  "startswith s pre = (take (length pre) s = pre)"

text \<open>The exceptions the source raises or lets through, each a subclass of \<^verbatim>\<open>Exception\<close>.\<close>

datatype exn =
    CalledProcessError "string list" int
  | OSError string
  | NotADirectoryError string
  | RuntimeError string
  | GithubException string
  | OtherException string

text \<open>
  What \<^verbatim>\<open>subprocess.run\<close> does with a command: the process ran and exited with a return
  code, or it could not be started (\<^verbatim>\<open>FileNotFoundError\<close>, an \<^verbatim>\<open>OSError\<close>).
\<close>

datatype proc_outcome = Completed int | SpawnFailed string

text \<open>\<^verbatim>\<open>github.Repository.Repository\<close>, as far as the program reads it.\<close>

record repo =
  ssh_url :: string
  clone_url :: string
  repo_default_branch :: string

type_synonym environ = "(string \<times> string) list"

text \<open>
  The external systems. \<open>exec\<close> is \<^verbatim>\<open>subprocess.run(args, cwd, env)\<close> with the overlay
  \<open>env\<close> merged onto the inherited environment; the \<open>api_\<close> functions are the PyGithub
  calls made with the manager's token; \<open>cpe_str\<close> is Python's rendering
  \<^verbatim>\<open>str(CalledProcessError)\<close>; \<open>resolve\<close> is \<^verbatim>\<open>Path(s).expanduser().resolve()\<close>.
\<close>

record 'w sys =
  is_dir :: "path \<Rightarrow> 'w \<Rightarrow> bool"
  path_exists :: "path \<Rightarrow> 'w \<Rightarrow> bool"
  iterdir :: "path \<Rightarrow> 'w \<Rightarrow> string list"
  write_text :: "path \<Rightarrow> string \<Rightarrow> 'w \<Rightarrow> 'w"
  exec :: "string list \<Rightarrow> path \<Rightarrow> environ option \<Rightarrow> 'w \<Rightarrow> proc_outcome \<times> 'w"
  pygithub_installed :: bool
  api_login :: "string \<Rightarrow> 'w \<Rightarrow> exn + string"
  api_get_repo :: "string \<Rightarrow> string \<Rightarrow> 'w \<Rightarrow> exn + repo"
  api_create_repo :: "string \<Rightarrow> string \<Rightarrow> bool \<Rightarrow> string \<Rightarrow> bool \<Rightarrow> 'w \<Rightarrow> (exn + repo) \<times> 'w"
  api_edit :: "string \<Rightarrow> string \<Rightarrow> string \<Rightarrow> 'w \<Rightarrow> (exn + unit) \<times> 'w"
  cpe_str :: "string list \<Rightarrow> int \<Rightarrow> string"
  resolve :: "string \<Rightarrow> 'w \<Rightarrow> path"

text \<open>\<^verbatim>\<open>str(e)\<close>: the message of the exception.\<close>

fun str_exn :: "'w sys \<Rightarrow> exn \<Rightarrow> string" where
  "str_exn sy (CalledProcessError args rc) = cpe_str sy args rc"
| "str_exn sy (OSError m) = m"
| "str_exn sy (NotADirectoryError m) = m"
| "str_exn sy (RuntimeError m) = m"
| "str_exn sy (GithubException m) = m"
| "str_exn sy (OtherException m) = m"

text \<open>The calls that leave the program, in the order they are made.\<close>

datatype event =
    Run "string list" path "environ option"
  | WriteText path string
  | ApiGetRepo string
  | ApiCreateRepo string bool string bool
  | ApiEdit string string

text \<open>
  Log records of level INFO and above (the configured level; \<^verbatim>\<open>logger.debug\<close> emits
  nothing). The colour prefix of a message is kept apart from its text.
\<close>

datatype level = INFO | WARNING | ERROR

datatype colour = Plain | RED | GREEN | YELLOW | CYAN | BRIGHT

type_synonym log_record = "level \<times> colour \<times> string"

text \<open>
  The mutable state: the world, the trace and the log, and \<^verbatim>\<open>self.summary\<close> of the
  \<^verbatim>\<open>ProjectProcessor\<close>.
\<close>

record 'w state =
  world :: 'w
  trace :: "event list"
  logs :: "log_record list"
  summary :: "(string \<times> bool \<times> string) list"

text \<open>A statement of the source: it runs on a state and returns normally or raises.\<close>

type_synonym ('w, 'a) stmt = "'w state \<Rightarrow> (exn + 'a) \<times> 'w state"

definition log :: "level \<Rightarrow> colour \<Rightarrow> string \<Rightarrow> 'w state \<Rightarrow> 'w state" where
  "log l c m s = s\<lparr>logs := logs s @ [(l, c, m)]\<rparr>"

subsection \<open>Helpers\<close>

text \<open>
  \<^verbatim>\<open>run_git_cmd\<close>: with \<^verbatim>\<open>check=True\<close> a non-zero return code raises
  \<^verbatim>\<open>CalledProcessError\<close>; a process that cannot be started raises whatever \<^verbatim>\<open>check\<close> is.
  \<^verbatim>\<open>capture_output\<close> only redirects the output, which the program never reads.
\<close>

definition run_git_cmd ::
  "'w sys \<Rightarrow> string list \<Rightarrow> path \<Rightarrow> bool \<Rightarrow> bool \<Rightarrow> environ option \<Rightarrow> ('w, int) stmt" where
  "run_git_cmd sy args cwd check capture_output env s =
     (case exec sy args cwd env (world s) of (out, w') \<Rightarrow>
        (let s' = s\<lparr>world := w', trace := trace s @ [Run args cwd env]\<rparr> in
         case out of
           SpawnFailed m \<Rightarrow> (Inl (OSError m), s')
         | Completed rc \<Rightarrow>
             if check \<and> rc \<noteq> 0 then (Inl (CalledProcessError args rc), s')
             else (Inr rc, s')))"

text \<open>
  \<^verbatim>\<open>get_subdirectories\<close>: \<^verbatim>\<open>sorted(parent.iterdir())\<close> sorts the child paths, which
  are compared component by component.
\<close>

definition get_subdirectories :: "'w sys \<Rightarrow> path \<Rightarrow> 'w \<Rightarrow> exn + path list" where
  "get_subdirectories sy parent w =
     (if \<not> is_dir sy parent w
      then Inl (NotADirectoryError (''Parent path is not a directory: '' @ str_path parent))
      else Inr (filter (\<lambda>p. is_dir sy p w \<and> \<not> startswith (name p) ''.'')
                  (sort (map (\<lambda>n. parent @ [n]) (iterdir sy parent w)))))"

definition default_initial_branch_name :: "string \<Rightarrow> string" where
  "default_initial_branch_name repo_name = ''main''"

subsection \<open>Control flow\<close>

text \<open>
  Sequencing (an exception of the first statement skips the second), a value passed
  on, \<^verbatim>\<open>try: m except subprocess.CalledProcessError as e: h e\<close> and
  \<^verbatim>\<open>try: m except Exception as e: h e\<close>.
\<close>

definition ret :: "'a \<Rightarrow> ('w, 'a) stmt" where
  "ret x s = (Inr x, s)"

definition raise :: "exn \<Rightarrow> ('w, 'a) stmt" where
  "raise e s = (Inl e, s)"

definition bind :: "('w, 'a) stmt \<Rightarrow> ('a \<Rightarrow> ('w, 'b) stmt) \<Rightarrow> ('w, 'b) stmt" where
  "bind m f s = (case m s of (Inl e, s') \<Rightarrow> (Inl e, s') | (Inr x, s') \<Rightarrow> f x s')"

definition seq :: "('w, 'a) stmt \<Rightarrow> ('w, 'b) stmt \<Rightarrow> ('w, 'b) stmt" where
  "seq m1 m2 = bind m1 (\<lambda>_. m2)"

definition say :: "level \<Rightarrow> colour \<Rightarrow> string \<Rightarrow> ('w, unit) stmt" where
  "say l c m s = (Inr (), log l c m s)"

fun is_cpe :: "exn \<Rightarrow> bool" where
  "is_cpe (CalledProcessError args rc) = True"
| "is_cpe _ = False"

definition try_cpe :: "('w, 'a) stmt \<Rightarrow> (exn \<Rightarrow> ('w, 'a) stmt) \<Rightarrow> ('w, 'a) stmt" where
  "try_cpe m h s =
     (case m s of (Inl e, s') \<Rightarrow> (if is_cpe e then h e s' else (Inl e, s')) | (Inr x, s') \<Rightarrow> (Inr x, s'))"

definition try_exception :: "('w, 'a) stmt \<Rightarrow> (exn \<Rightarrow> ('w, 'a) stmt) \<Rightarrow> ('w, 'a) stmt" where
  "try_exception m h s = (case m s of (Inl e, s') \<Rightarrow> h e s' | (Inr x, s') \<Rightarrow> (Inr x, s'))"

text \<open>\<^verbatim>\<open>run_git_cmd(args, cwd)\<close> with the defaults \<^verbatim>\<open>check=True, capture_output=False, env=None\<close>.\<close>

definition git :: "'w sys \<Rightarrow> string list \<Rightarrow> path \<Rightarrow> ('w, int) stmt" where
  "git sy args cwd = run_git_cmd sy args cwd True False None"

text \<open>Python's truth value of an \<^verbatim>\<open>Optional[str]\<close>: neither \<^verbatim>\<open>None\<close> nor empty.\<close>

fun truthy :: "string option \<Rightarrow> bool" where
  "truthy None = False"
| "truthy (Some v) = (v \<noteq> [])"

text \<open>
  \<^verbatim>\<open>s.replace(old, new)\<close>: every occurrence of \<open>old\<close> from the left, without
  overlap; an empty \<open>old\<close> matches before every character and at the end.
\<close>

function str_replace :: "string \<Rightarrow> string \<Rightarrow> string \<Rightarrow> string" where
  "str_replace s [] new = new @ concat (map (\<lambda>c. c # new) s)"
| "str_replace [] (a # as) new = []"
| "str_replace (c # cs) (a # as) new =
     (if startswith (c # cs) (a # as)
      then new @ str_replace (drop (length (a # as)) (c # cs)) (a # as) new
      else c # str_replace cs (a # as) new)"
  by pat_completeness auto
termination
  by (relation "measure (\<lambda>(s, old, new). length s)") auto

text \<open>\<^verbatim>\<open>str(n)\<close> of a natural number.\<close>

function str_nat :: "nat \<Rightarrow> string" where
  "str_nat n = (if n < 10 then [char_of (48 + n)] else str_nat (n div 10) @ [char_of (48 + n mod 10)])"
  by pat_completeness auto
termination
  by (relation "measure id") auto

text \<open>\<^verbatim>\<open>s.upper()\<close> and \<^verbatim>\<open>s.lower()\<close> on the ASCII letters; other bytes are kept.\<close>

definition upper :: "string \<Rightarrow> string" where
  "upper s = map (\<lambda>c. if CHR ''a'' \<le> c \<and> c \<le> CHR ''z'' then char_of (of_char c - (32::nat)) else c) s"

definition lower :: "string \<Rightarrow> string" where
  "lower s = map (\<lambda>c. if CHR ''A'' \<le> c \<and> c \<le> CHR ''Z'' then char_of (of_char c + (32::nat)) else c) s"

subsection \<open>GitHub operations\<close>

text \<open>A \<^verbatim>\<open>GitHubManager\<close>: the login of the authenticated user and the token of its client.\<close>

record manager =
  username :: string
  gh_token :: string

text \<open>
  \<^verbatim>\<open>GitHubManager.__init__\<close>. Only \<^verbatim>\<open>GithubException\<close> becomes a \<^verbatim>\<open>RuntimeError\<close>;
  any other exception of the request leaves the constructor as it is.
\<close>

definition GitHubManager_init :: "'w sys \<Rightarrow> string \<Rightarrow> 'w \<Rightarrow> exn + manager" where
  "GitHubManager_init sy token w =
     (if \<not> pygithub_installed sy
      then Inl (RuntimeError ''PyGithub is required. Install with: pip install PyGithub'')
      else case api_login sy token w of
             Inl (GithubException m) \<Rightarrow> Inl (RuntimeError (''Failed to authenticate to GitHub: '' @ m))
           | Inl e \<Rightarrow> Inl e
           | Inr login \<Rightarrow> Inr \<lparr>username = login, gh_token = token\<rparr>)"

text \<open>The three PyGithub requests of \<^verbatim>\<open>create_repo\<close>, each recorded in the trace.\<close>

definition get_repo :: "'w sys \<Rightarrow> manager \<Rightarrow> string \<Rightarrow> ('w, repo) stmt" where
  "get_repo sy gh nm s =
     (api_get_repo sy (gh_token gh) nm (world s), s\<lparr>trace := trace s @ [ApiGetRepo nm]\<rparr>)"

definition user_create_repo ::
  "'w sys \<Rightarrow> manager \<Rightarrow> string \<Rightarrow> bool \<Rightarrow> string \<Rightarrow> bool \<Rightarrow> ('w, repo) stmt" where
  "user_create_repo sy gh nm private description auto_init s =
     (case api_create_repo sy (gh_token gh) nm private description auto_init (world s) of
        (r, w') \<Rightarrow> (r, s\<lparr>world := w', trace := trace s @ [ApiCreateRepo nm private description auto_init]\<rparr>))"

definition repo_edit :: "'w sys \<Rightarrow> manager \<Rightarrow> string \<Rightarrow> string \<Rightarrow> ('w, unit) stmt" where
  "repo_edit sy gh nm default_branch s =
     (case api_edit sy (gh_token gh) nm default_branch (world s) of
        (r, w') \<Rightarrow> (r, s\<lparr>world := w', trace := trace s @ [ApiEdit nm default_branch]\<rparr>))"

text \<open>
  \<^verbatim>\<open>GitHubManager.create_repo\<close>. A failed lookup of any kind falls through to the
  creation; of the creation's exceptions \<^verbatim>\<open>GithubException\<close> is turned into a
  \<^verbatim>\<open>RuntimeError\<close>; a failed change of the default branch is dropped.
\<close>

definition create_repo ::
  "'w sys \<Rightarrow> manager \<Rightarrow> string \<Rightarrow> bool \<Rightarrow> string \<Rightarrow> bool \<Rightarrow> string option \<Rightarrow> ('w, repo) stmt" where
  "create_repo sy gh nm private description auto_init default_branch =
     try_exception
       (try_exception
          (bind (get_repo sy gh nm) (\<lambda>repo.
             seq (say INFO YELLOW (''Repo already exists on GitHub: '' @ nm)) (ret repo)))
          (\<lambda>_.
             bind
               (if truthy default_branch
                then bind (user_create_repo sy gh nm private description auto_init) (\<lambda>repo.
                       if truthy default_branch \<and> the default_branch \<noteq> repo_default_branch repo
                       then seq (try_exception (repo_edit sy gh nm (the default_branch)) (\<lambda>_. ret ()))
                                (ret repo)
                       else ret repo)
                else user_create_repo sy gh nm private description auto_init)
               (\<lambda>repo. seq (say INFO GREEN (''Created GitHub repo: '' @ nm)) (ret repo))))
       (\<lambda>e. case e of
               GithubException m \<Rightarrow> raise (RuntimeError (''GitHub create repo failed: '' @ m))
             | _ \<Rightarrow> raise e)"

subsection \<open>Core processing\<close>

text \<open>
  The dictionary \<^verbatim>\<open>do_branch_ops\<close> has at most the keys \<^verbatim>\<open>'create'\<close>, \<^verbatim>\<open>'rename'\<close> and
  \<^verbatim>\<open>'switch'\<close>; a field is \<open>None\<close> when its key is absent.
\<close>

record branch_ops =
  create :: "string option"
  rename :: "(string \<times> string) option"
  switch :: "string option"

definition no_branch_ops :: branch_ops where
  "no_branch_ops = \<lparr>create = None, rename = None, switch = None\<rparr>"

text \<open>The fields of a \<^verbatim>\<open>ProjectProcessor\<close> that stay fixed (\<^verbatim>\<open>summary\<close> is in the state;
  \<open>private_repos\<close> is \<^verbatim>\<open>self.private\<close>).\<close>

record processor =
  parent_dir :: path
  github_manager :: "manager option"
  token :: "string option"
  git_name :: "string option"
  git_email :: "string option"
  protocol :: string
  private_repos :: bool
  default_branch :: string
  push_via_token_in_https :: bool
  do_branch_ops :: branch_ops

text \<open>\<^verbatim>\<open>ProjectProcessor.__init__\<close>: the protocol is stored in upper case.\<close>

definition ProjectProcessor_init ::
  "path \<Rightarrow> manager option \<Rightarrow> string option \<Rightarrow> string option \<Rightarrow> string option \<Rightarrow> string \<Rightarrow> bool
     \<Rightarrow> string \<Rightarrow> bool \<Rightarrow> branch_ops option \<Rightarrow> processor" where
  "ProjectProcessor_init parent gh tok nm email proto priv branch embed_token ops =
     \<lparr>parent_dir = parent, github_manager = gh, token = tok, git_name = nm, git_email = email,
      protocol = upper proto, private_repos = priv, default_branch = branch,
      push_via_token_in_https = embed_token,
      do_branch_ops = (case ops of None \<Rightarrow> no_branch_ops | Some d \<Rightarrow> d)\<rparr>"

text \<open>\<^verbatim>\<open>_has_commits\<close>: two probes; a non-zero exit of either means no commits.\<close>

definition has_commits :: "'w sys \<Rightarrow> path \<Rightarrow> ('w, bool) stmt" where
  "has_commits sy cwd =
     try_cpe
       (seq (run_git_cmd sy [''git'', ''rev-parse'', ''--is-inside-work-tree''] cwd True True None)
         (seq (run_git_cmd sy [''git'', ''rev-parse'', ''HEAD''] cwd True True None)
           (ret True)))
       (\<lambda>_. ret False)"

text \<open>
  \<^verbatim>\<open>_do_branch_operations\<close>: three independent \<^verbatim>\<open>if\<close> statements, each with its own
  \<^verbatim>\<open>try\<close> block.
\<close>

definition create_branch_op :: "'w sys \<Rightarrow> path \<Rightarrow> string \<Rightarrow> ('w, unit) stmt" where
  "create_branch_op sy cwd nm =
     try_cpe
       (seq (git sy [''git'', ''checkout'', ''-b'', nm] cwd)
         (seq (git sy [''git'', ''push'', ''-u'', ''origin'', nm] cwd)
           (say INFO GREEN (''Created and pushed branch '' @ nm))))
       (\<lambda>_. say WARNING YELLOW (''Could not create branch '' @ nm))"

definition rename_branch_op :: "'w sys \<Rightarrow> path \<Rightarrow> string \<Rightarrow> string \<Rightarrow> ('w, unit) stmt" where
  "rename_branch_op sy cwd old new =
     try_cpe
       (seq (git sy [''git'', ''branch'', ''-m'', old, new] cwd)
         (seq (git sy [''git'', ''push'', ''origin'', '':'' @ old] cwd)
           (seq (git sy [''git'', ''push'', ''-u'', ''origin'', new] cwd)
             (say INFO GREEN (''Renamed branch '' @ old @ '' -> '' @ new)))))
       (\<lambda>_. say WARNING YELLOW (''Could not rename branch '' @ old @ '' -> '' @ new))"

definition switch_branch_op :: "'w sys \<Rightarrow> path \<Rightarrow> string \<Rightarrow> ('w, unit) stmt" where
  "switch_branch_op sy cwd nm =
     try_cpe
       (seq (git sy [''git'', ''checkout'', nm] cwd)
         (say INFO GREEN (''Switched to branch '' @ nm)))
       (\<lambda>_. say WARNING YELLOW (''Could not switch to branch '' @ nm))"

definition do_branch_operations :: "processor \<Rightarrow> 'w sys \<Rightarrow> path \<Rightarrow> ('w, unit) stmt" where
  "do_branch_operations self sy cwd =
     (let ops = do_branch_ops self in
      if create ops = None \<and> rename ops = None \<and> switch ops = None then ret ()
      else
        seq (if truthy (create ops) then create_branch_op sy cwd (the (create ops)) else ret ())
         (seq (case rename ops of
                 Some (old, new) \<Rightarrow> rename_branch_op sy cwd old new
               | None \<Rightarrow> ret ())
           (if truthy (switch ops) then switch_branch_op sy cwd (the (switch ops)) else ret ())))"

text \<open>
  \<^verbatim>\<open>process_project\<close>, in the numbered steps of the source. The file that an empty
  folder gets is \<^verbatim>\<open>README.md\<close>.
\<close>

definition write_readme :: "'w sys \<Rightarrow> path \<Rightarrow> ('w, unit) stmt" where
  "write_readme sy cwd s =
     (let body = ''# '' @ name cwd @ [CHR 0x0A, CHR 0x0A] @ ''Initial commit by git-automation CLI'' @ [CHR 0x0A] in
      (Inr (), s\<lparr>world := write_text sy (cwd @ [''README.md'']) body (world s),
                 trace := trace s @ [WriteText (cwd @ [''README.md'']) body]\<rparr>))"

definition init_step :: "'w sys \<Rightarrow> path \<Rightarrow> ('w, unit) stmt" where
  "init_step sy cwd s =
     (if \<not> path_exists sy (cwd @ [''.git'']) (world s)
      then seq (say INFO YELLOW ''.git not found -> initializing git repository'')
             (seq (git sy [''git'', ''init''] cwd) (ret ())) s
      else say INFO GREEN ''.git found -> skipping git init'' s)"

definition config_step :: "processor \<Rightarrow> 'w sys \<Rightarrow> path \<Rightarrow> ('w, unit) stmt" where
  "config_step self sy cwd =
     seq (if truthy (git_name self)
          then seq (git sy [''git'', ''config'', ''user.name'', the (git_name self)] cwd) (ret ())
          else ret ())
         (if truthy (git_email self)
          then seq (git sy [''git'', ''config'', ''user.email'', the (git_email self)] cwd) (ret ())
          else ret ())"

definition initial_commit :: "'w sys \<Rightarrow> path \<Rightarrow> string \<Rightarrow> ('w, unit) stmt" where
  "initial_commit sy cwd branch_name =
     seq (\<lambda>s. if iterdir sy cwd (world s) = [] then write_readme sy cwd s else ret () s)
       (try_cpe
          (seq (git sy [''git'', ''add'', ''-A''] cwd)
            (seq (git sy [''git'', ''checkout'', ''-b'', branch_name] cwd)
              (seq (git sy [''git'', ''commit'', ''-m'', ''Initial commit''] cwd)
                (ret ()))))
          (\<lambda>_. say WARNING YELLOW ''Initial commit failed or nothing to commit; continuing''))"

definition commit_step :: "'w sys \<Rightarrow> path \<Rightarrow> string \<Rightarrow> ('w, unit) stmt" where
  "commit_step sy cwd branch_name =
     bind (has_commits sy cwd) (\<lambda>has.
       if \<not> has then initial_commit sy cwd branch_name
       else try_cpe (seq (git sy [''git'', ''checkout'', branch_name] cwd) (ret ()))
              (\<lambda>_. seq (git sy [''git'', ''checkout'', ''-b'', branch_name] cwd) (ret ())))"

definition remote_url_for :: "processor \<Rightarrow> repo \<Rightarrow> string" where
  "remote_url_for self repo =
     (let remote_url = (if protocol self = ''SSH'' then ssh_url repo else clone_url repo) in
      if protocol self = ''HTTPS'' \<and> push_via_token_in_https self \<and> truthy (token self)
      then str_replace remote_url ''https://'' (''https://'' @ the (token self) @ ''@'')
      else remote_url)"

text \<open>
  The removal of a remote that may not exist: \<^verbatim>\<open>check=False\<close> and \<^verbatim>\<open>except Exception: pass\<close>.
\<close>

definition remove_origin :: "'w sys \<Rightarrow> path \<Rightarrow> ('w, unit) stmt" where
  "remove_origin sy cwd =
     try_exception
       (seq (run_git_cmd sy [''git'', ''remote'', ''remove'', ''origin''] cwd False False None) (ret ()))
       (\<lambda>_. ret ())"

definition remote_step :: "processor \<Rightarrow> 'w sys \<Rightarrow> path \<Rightarrow> string \<Rightarrow> ('w, unit) stmt" where
  "remote_step self sy cwd branch_name =
     (case github_manager self of
        None \<Rightarrow> ret ()
      | Some gh \<Rightarrow>
          bind (create_repo sy gh (name cwd) (private_repos self) [] False (Some branch_name)) (\<lambda>repo.
            let remote_url = remote_url_for self repo in
            seq (remove_origin sy cwd)
              (seq (git sy [''git'', ''remote'', ''add'', ''origin'', remote_url] cwd)
                (say INFO GREEN (''Remote origin set to: '' @ remote_url)))))"

definition push_step :: "processor \<Rightarrow> 'w sys \<Rightarrow> path \<Rightarrow> string \<Rightarrow> ('w, unit) stmt" where
  "push_step self sy cwd branch_name =
     try_cpe
       (let env = (if protocol self = ''HTTPS'' \<and> \<not> push_via_token_in_https self
                   then Some [(''GIT_TERMINAL_PROMPT'', ''0'')] else None) in
        seq (run_git_cmd sy [''git'', ''push'', ''-u'', ''origin'', branch_name] cwd True False env)
          (say INFO GREEN (''Pushed '' @ name cwd @ '' to origin/'' @ branch_name)))
       (\<lambda>e. raise (RuntimeError (''Failed to push '' @ name cwd @ '': '' @ str_exn sy e)))"

definition record_success :: "path \<Rightarrow> ('w, unit) stmt" where
  "record_success project_path s =
     (Inr (), s\<lparr>summary := summary s @ [(name project_path, True, ''OK'')]\<rparr>)"

definition process_project :: "processor \<Rightarrow> 'w sys \<Rightarrow> path \<Rightarrow> ('w, unit) stmt" where
  "process_project self sy project_path =
     (let cwd = project_path;
          branch_name = (if default_branch self \<noteq> [] then default_branch self
                         else default_initial_branch_name (name project_path)) in
      seq (say INFO BRIGHT ([CHR 0x0A] @ ''=== Processing: '' @ name project_path @ '' ===''))
       (seq (init_step sy cwd)
         (seq (config_step self sy cwd)
           (seq (commit_step sy cwd branch_name)
             (seq (remote_step self sy cwd branch_name)
               (seq (push_step self sy cwd branch_name)
                 (seq (do_branch_operations self sy cwd)
                   (seq (record_success project_path)
                     (say INFO BRIGHT (''=== Finished: '' @ name project_path @ '' ==='' @ [CHR 0x0A]))))))))))"

text \<open>\<^verbatim>\<open>report_summary\<close>: the successes, then the failures, each in the order of the summary.\<close>

definition report_summary :: "'w state \<Rightarrow> 'w state" where
  "report_summary s =
     (let ok = filter (\<lambda>(n, b, m). b) (summary s);
          fail = filter (\<lambda>(n, b, m). \<not> b) (summary s) in
      s\<lparr>logs := logs s
           @ [(INFO, BRIGHT, [CHR 0x0A] @ ''=== Summary ===''),
              (INFO, GREEN, ''Succeeded: '' @ str_nat (length ok))]
           @ map (\<lambda>(n, b, m). (INFO, GREEN, ''  - '' @ n @ '': '' @ m)) ok
           @ [(INFO, RED, ''Failed: '' @ str_nat (length fail))]
           @ map (\<lambda>(n, b, m). (INFO, RED, ''  - '' @ n @ '': '' @ m)) fail\<rparr>)"

text \<open>
  The body of the loop of \<^verbatim>\<open>process_all\<close>: \<^verbatim>\<open>except Exception\<close> takes every exception
  of \<^verbatim>\<open>process_project\<close> and turns it into a summary entry.
\<close>

definition process_one :: "processor \<Rightarrow> 'w sys \<Rightarrow> path \<Rightarrow> 'w state \<Rightarrow> 'w state" where
  "process_one self sy project s =
     (case process_project self sy project s of
        (Inr _, s') \<Rightarrow> s'
      | (Inl e, s') \<Rightarrow>
          (log ERROR RED (''Failed processing '' @ name project @ '': '' @ str_exn sy e) s')
            \<lparr>summary := summary s' @ [(name project, False, str_exn sy e)]\<rparr>)"

fun process_loop :: "processor \<Rightarrow> 'w sys \<Rightarrow> path list \<Rightarrow> 'w state \<Rightarrow> 'w state" where
  "process_loop self sy [] s = s"
| "process_loop self sy (project # projects) s =
     process_loop self sy projects (process_one self sy project s)"

definition process_all :: "processor \<Rightarrow> 'w sys \<Rightarrow> ('w, unit) stmt" where
  "process_all self sy s =
     (case get_subdirectories sy (parent_dir self) (world s) of
        Inl e \<Rightarrow> (Inl e, s)
      | Inr projects \<Rightarrow>
          if projects = []
          then (Inr (), log INFO YELLOW ''No subdirectories found under the parent path.'' s)
          else
            (let s1 = log INFO CYAN (''Found '' @ str_nat (length projects)
                                      @ '' projects. Beginning processing in order.'') s;
                 s2 = process_loop self sy projects s1
             in (Inr (), report_summary s2)))"

subsection \<open>Command line\<close>

text \<open>
  The namespace that \<^verbatim>\<open>parse_args\<close> returns (argparse has accepted the command line:
  \<open>arg_protocol\<close> is one of its two choices, and at most one of \<open>arg_token\<close> and
  \<open>arg_token_from_env\<close> is given), and what the process reads while it runs: the
  environment, the line typed at the hidden prompt, the line typed at the confirmation,
  and the rendering of the elapsed time.
\<close>

record args =
  arg_parent :: string
  arg_token :: "string option"
  arg_token_from_env :: "string option"
  arg_name :: "string option"
  arg_email :: "string option"
  arg_protocol :: string
  arg_private :: bool
  arg_default_branch :: string
  arg_https_token :: bool
  arg_create_branch :: "string option"
  arg_rename_branch :: "(string \<times> string) option"
  arg_switch_branch :: "string option"
  arg_yes :: bool

record inputs =
  os_environ :: "string \<Rightarrow> string option"
  getpass_reply :: string
  input_reply :: string
  elapsed :: string

text \<open>
  The token of \<^verbatim>\<open>main\<close>: \<open>Inl\<close> is the message logged before \<^verbatim>\<open>sys.exit(1)\<close>,
  \<open>Inr\<close> the value of \<^verbatim>\<open>token\<close> before the last test.
\<close>

definition obtain_token :: "args \<Rightarrow> inputs \<Rightarrow> string + string option" where
  "obtain_token a inp =
     (if truthy (arg_token a) then Inr (arg_token a)
      else if truthy (arg_token_from_env a) then
        (let tok = os_environ inp (the (arg_token_from_env a)) in
         if \<not> truthy tok
         then Inl (''Environment variable '' @ the (arg_token_from_env a) @ '' not set or empty'')
         else Inr tok)
      else if \<not> arg_yes a then Inr (Some (getpass_reply inp))
      else Inl ''No token supplied and --yes set; cannot safely prompt for token.'')"

definition prepare_branch_ops :: "args \<Rightarrow> branch_ops" where
  "prepare_branch_ops a =
     \<lparr>create = (if truthy (arg_create_branch a) then arg_create_branch a else None),
      rename = arg_rename_branch a,
      switch = (if truthy (arg_switch_branch a) then arg_switch_branch a else None)\<rparr>"

definition str_bool :: "bool \<Rightarrow> string" where
  "str_bool b = (if b then ''True'' else ''False'')"

text \<open>
  \<^verbatim>\<open>main\<close>. \<open>Inr c\<close> is \<^verbatim>\<open>sys.exit(c)\<close>, or the end of \<^verbatim>\<open>main\<close> for \<open>c = 0\<close>;
  \<open>Inl e\<close> is an exception that nothing catches, with which Python exits with status 1.
\<close>

definition main :: "'w sys \<Rightarrow> args \<Rightarrow> inputs \<Rightarrow> 'w state \<Rightarrow> (exn + int) \<times> 'w state" where
  "main sy a inp s =
     (let parent = resolve sy (arg_parent a) (world s) in
      if \<not> is_dir sy parent (world s)
      then (Inr 1, log ERROR RED (''Parent path is not a directory: '' @ str_path parent) s)
      else
       (case obtain_token a inp of
          Inl msg \<Rightarrow> (Inr 1, log ERROR RED msg s)
        | Inr tok \<Rightarrow>
           (if \<not> truthy tok
            then (Inr 1, log ERROR RED ''A GitHub token is required to create repositories via the API.'' s)
            else
             (case GitHubManager_init sy (the tok) (world s) of
                Inl e \<Rightarrow> (Inr 1, log ERROR RED (''GitHub authentication failed: '' @ str_exn sy e) s)
              | Inr gh \<Rightarrow>
                 (let s1 = log INFO CYAN (''Authenticated to GitHub as: '' @ username gh) s;
                      branch_ops = prepare_branch_ops a;
                      processor = ProjectProcessor_init parent (Some gh) tok (arg_name a) (arg_email a)
                                    (arg_protocol a) (arg_private a) (arg_default_branch a)
                                    (arg_https_token a) (Some branch_ops);
                      s2 = log INFO BRIGHT (''Parent directory: '' @ str_path parent) s1;
                      s3 = log INFO Plain ''Number of projects: will scan all immediate subdirectories'' s2;
                      s4 = log INFO Plain (''GitHub account: '' @ username gh) s3;
                      s5 = log INFO Plain (''Protocol: '' @ arg_protocol a) s4;
                      s6 = log INFO Plain (''Default branch: '' @ arg_default_branch a) s5;
                      s7 = log INFO Plain (''Create repos as private: '' @ str_bool (arg_private a)) s6
                  in
                  if \<not> arg_yes a \<and> lower (input_reply inp) \<notin> {''y'', ''yes''}
                  then (Inr 0, log INFO Plain ''Aborted by user'' s7)
                  else
                   (case process_all processor sy s7 of
                      (Inl e, s8) \<Rightarrow> (Inl e, s8)
                    | (Inr u, s8) \<Rightarrow>
                        (Inr 0, log INFO BRIGHT (''All done in '' @ elapsed inp @ ''s'') s8)))))))"


subsection \<open>Observations on a run\<close>

text \<open>
  The branch that \<^verbatim>\<open>process_project\<close> pushes, and its statements that come before
  the push (steps 1 to 4).
\<close>

definition branch_name_of :: "processor \<Rightarrow> path \<Rightarrow> string" where
  "branch_name_of self project_path =
     (if default_branch self \<noteq> [] then default_branch self
      else default_initial_branch_name (name project_path))"

definition steps_before_push :: "processor \<Rightarrow> 'w sys \<Rightarrow> path \<Rightarrow> ('w, unit) stmt" where
  "steps_before_push self sy project_path =
     (let cwd = project_path; branch_name = branch_name_of self project_path in
      seq (say INFO BRIGHT ([CHR 0x0A] @ ''=== Processing: '' @ name project_path @ '' ===''))
       (seq (init_step sy cwd)
         (seq (config_step self sy cwd)
           (seq (commit_step sy cwd branch_name)
             (remote_step self sy cwd branch_name)))))"

text \<open>
  A branch operation is read off the trace by the command that starts it:
  \<^verbatim>\<open>git checkout -b NAME\<close>, \<^verbatim>\<open>git branch -m OLD NEW\<close> or \<^verbatim>\<open>git checkout NAME\<close>.
  \<open>requested\<close> lists the operations of a request that \<^verbatim>\<open>_do_branch_operations\<close> takes up.
\<close>

datatype branch_op = Create string | Rename string string | Switch string

fun started :: "event \<Rightarrow> branch_op option" where
  "started (Run [g, c, x] cwd env) =
     (if g = ''git'' \<and> c = ''checkout'' then Some (Switch x) else None)"
| "started (Run [g, c, x, y] cwd env) =
     (if g = ''git'' \<and> c = ''checkout'' \<and> x = ''-b'' then Some (Create y) else None)"
| "started (Run [g, c, x, y, z] cwd env) =
     (if g = ''git'' \<and> c = ''branch'' \<and> x = ''-m'' then Some (Rename y z) else None)"
| "started _ = None"

definition requested :: "branch_ops \<Rightarrow> branch_op list" where
  "requested ops =
     (if truthy (create ops) then [Create (the (create ops))] else [])
     @ (case rename ops of Some (old, new) \<Rightarrow> [Rename old new] | None \<Rightarrow> [])
     @ (if truthy (switch ops) then [Switch (the (switch ops))] else [])"

text \<open>The events that a statement added to the trace, and the log records it added.\<close>

definition new_events :: "'w state \<Rightarrow> 'w state \<Rightarrow> event list" where
  "new_events s s' = drop (length (trace s)) (trace s')"

definition new_logs :: "'w state \<Rightarrow> 'w state \<Rightarrow> log_record list" where
  "new_logs s s' = drop (length (logs s)) (logs s')"


fun is_create_request :: "event \<Rightarrow> bool" where
  "is_create_request (ApiCreateRepo nm priv description auto_init) = True"
| "is_create_request _ = False"

fun is_write :: "event \<Rightarrow> bool" where
  "is_write (WriteText p body) = True"
| "is_write _ = False"

text \<open>Whether \<open>old\<close> occurs in \<open>s\<close>.\<close>

fun occurs :: "string \<Rightarrow> string \<Rightarrow> bool" where
  "occurs old [] = (old = [])"
| "occurs old (c # cs) = (startswith (c # cs) old \<or> occurs old cs)"





subsection \<open>Properties of statements\<close>

text \<open>
  \<open>keeps\<close>: a statement leaves the summary alone and only adds to the trace and the
  log. \<open>extends\<close>: it only adds to the trace. \<open>records p\<close>: it only adds to the trace,
  and adds the success entry of \<open>p\<close> to the summary exactly when it returns.
  \<open>ran cwd\<close>: between two states a command was run in the directory \<open>cwd\<close>;
  a statement may do so whenever it ends (\<open>always_runs\<close>) or at least whenever it raises
  (\<open>runs_or_returns\<close>).
\<close>

definition keeps :: "('w, 'a) stmt \<Rightarrow> bool" where
  "keeps m = (\<forall>s r s'. m s = (r, s') \<longrightarrow>
      summary s' = summary s \<and> prefix (trace s) (trace s') \<and> prefix (logs s) (logs s'))"

definition extends :: "('w, 'a) stmt \<Rightarrow> bool" where
  "extends m = (\<forall>s r s'. m s = (r, s') \<longrightarrow> prefix (trace s) (trace s'))"

definition records :: "path \<Rightarrow> ('w, 'a) stmt \<Rightarrow> bool" where
  "records p m = (\<forall>s r s'. m s = (r, s') \<longrightarrow> prefix (trace s) (trace s') \<and>
      (case r of Inl e \<Rightarrow> summary s' = summary s
               | Inr x \<Rightarrow> summary s' = summary s @ [(name p, True, ''OK'')]))"

definition ran :: "path \<Rightarrow> 'w state \<Rightarrow> 'w state \<Rightarrow> bool" where
  "ran cwd s s' = (\<exists>args env. Run args cwd env \<in> set (new_events s s'))"

definition always_runs :: "path \<Rightarrow> ('w, 'a) stmt \<Rightarrow> bool" where
  "always_runs cwd m = (\<forall>s r s'. m s = (r, s') \<longrightarrow> ran cwd s s')"

definition runs_or_returns :: "path \<Rightarrow> ('w, 'a) stmt \<Rightarrow> bool" where
  "runs_or_returns cwd m = (\<forall>s e s'. m s = (Inl e, s') \<longrightarrow> ran cwd s s')"

subsection \<open>A small concrete system\<close>

text \<open>
  A world in which the commands behave as \<^verbatim>\<open>git\<close> documents them, as far as the
  program can tell from exit codes: \<^verbatim>\<open>git init\<close> creates the directory \<^verbatim>\<open>.git\<close>;
  \<^verbatim>\<open>rev-parse HEAD\<close> fails in a repository without commits; \<^verbatim>\<open>git add -A\<close> stages
  what the folder holds besides \<^verbatim>\<open>.git\<close>; \<^verbatim>\<open>git commit\<close> fails when nothing is staged;
  \<^verbatim>\<open>git push\<close> fails when the branch has no commit; removing a remote that is not
  configured fails; \<^verbatim>\<open>git init\<close> fails in a directory that cannot be written. The
  hosting service knows the repositories of one account.
\<close>

record toy =
  toy_dirs :: "path list"
  toy_files :: "path list"
  toy_staged :: "path list"
  toy_commits :: "path list"
  toy_origin :: "path list"
  toy_remote :: "string list"
  toy_readonly :: "path list"

definition toy_iterdir :: "path \<Rightarrow> toy \<Rightarrow> string list" where
  "toy_iterdir p w = map last (filter (\<lambda>q. q \<noteq> [] \<and> butlast q = p) (toy_dirs w @ toy_files w))"

definition toy_git :: "string list \<Rightarrow> path \<Rightarrow> toy \<Rightarrow> proc_outcome \<times> toy" where
  "toy_git args cwd w =
     (if cwd \<notin> set (toy_dirs w) then (SpawnFailed ''No such file or directory'', w)
      else if args = [''git'', ''init'']
        then (if cwd \<in> set (toy_readonly w) then (Completed 128, w)
              else (Completed 0, w\<lparr>toy_dirs := List.insert (cwd @ [''.git'']) (toy_dirs w)\<rparr>))
      else if cwd @ [''.git''] \<notin> set (toy_dirs w) then (Completed 128, w)
      else if args = [''git'', ''rev-parse'', ''HEAD'']
        then (Completed (if cwd \<in> set (toy_commits w) then 0 else 128), w)
      else if args = [''git'', ''add'', ''-A'']
        then (Completed 0,
              if filter (\<lambda>n. n \<noteq> ''.git'') (toy_iterdir cwd w) \<noteq> [] \<and> cwd \<notin> set (toy_commits w)
              then w\<lparr>toy_staged := List.insert cwd (toy_staged w)\<rparr> else w)
      else if take 2 args = [''git'', ''commit'']
        then (if cwd \<in> set (toy_staged w)
              then (Completed 0, w\<lparr>toy_staged := removeAll cwd (toy_staged w),
                                    toy_commits := List.insert cwd (toy_commits w)\<rparr>)
              else (Completed 1, w))
      else if args = [''git'', ''remote'', ''remove'', ''origin'']
        then (if cwd \<in> set (toy_origin w)
              then (Completed 0, w\<lparr>toy_origin := removeAll cwd (toy_origin w)\<rparr>)
              else (Completed 2, w))
      else if take 4 args = [''git'', ''remote'', ''add'', ''origin'']
        then (if cwd \<in> set (toy_origin w) then (Completed 3, w)
              else (Completed 0, w\<lparr>toy_origin := List.insert cwd (toy_origin w)\<rparr>))
      else if take 2 args = [''git'', ''push'']
        then (Completed (if cwd \<in> set (toy_commits w) \<and> cwd \<in> set (toy_origin w) then 0 else 1), w)
      else (Completed 0, w))"

definition toy_repo :: "string \<Rightarrow> repo" where
  "toy_repo nm =
     \<lparr>ssh_url = ''git@github.com:octocat/'' @ nm @ ''.git'',
      clone_url = ''https://github.com/octocat/'' @ nm @ ''.git'',
      repo_default_branch = ''main''\<rparr>"

definition toy_sys :: "toy sys" where
  "toy_sys =
     \<lparr>is_dir = (\<lambda>p w. p \<in> set (toy_dirs w)),
      path_exists = (\<lambda>p w. p \<in> set (toy_dirs w) \<or> p \<in> set (toy_files w)),
      iterdir = toy_iterdir,
      write_text = (\<lambda>p body w. w\<lparr>toy_files := List.insert p (toy_files w)\<rparr>),
      exec = (\<lambda>args cwd env w. toy_git args cwd w),
      pygithub_installed = True,
      api_login = (\<lambda>tok w. if tok = ''secret'' then Inr ''octocat''
                             else Inl (GithubException ''401 Bad credentials'')),
      api_get_repo = (\<lambda>tok nm w. if nm \<in> set (toy_remote w) then Inr (toy_repo nm)
                                  else Inl (GithubException ''404 Not Found'')),
      api_create_repo = (\<lambda>tok nm priv description auto_init w.
                           if nm \<in> set (toy_remote w)
                           then (Inl (GithubException ''422 name already exists''), w)
                           else (Inr (toy_repo nm), w\<lparr>toy_remote := List.insert nm (toy_remote w)\<rparr>)),
      api_edit = (\<lambda>tok nm branch w. (Inr (), w)),
      cpe_str = (\<lambda>args rc. ''Command '' @ concat (map (\<lambda>a. a @ '' '') args) @ ''returned non-zero exit status''),
      resolve = (\<lambda>p w. [p])\<rparr>"

text \<open>
  The parent directory \<^verbatim>\<open>work\<close> with the empty folder \<^verbatim>\<open>alpha\<close>, the folder \<^verbatim>\<open>beta\<close>
  that holds one file under version control with one commit, and the hidden folder
  \<^verbatim>\<open>.cache\<close>; beside it the read-only directory \<^verbatim>\<open>srv\<close>; the account has no repository
  yet.
\<close>

definition toy_world :: toy where
  "toy_world =
     \<lparr>toy_dirs = [[''work''], [''work'', ''beta''], [''work'', ''.cache''], [''work'', ''alpha''],
                  [''work'', ''beta'', ''.git''], [''srv'']],
      toy_files = [[''work'', ''beta'', ''x.txt''], [''work'', ''notes.txt'']],
      toy_staged = [],
      toy_commits = [[''work'', ''beta'']],
      toy_origin = [],
      toy_remote = [],
      toy_readonly = [[''srv'']]\<rparr>"

definition toy_state :: "toy state" where
  "toy_state = \<lparr>world = toy_world, trace = [], logs = [], summary = []\<rparr>"

definition toy_manager :: manager where
  "toy_manager = \<lparr>username = ''octocat'', gh_token = ''secret''\<rparr>"

definition toy_processor :: processor where
  "toy_processor =
     ProjectProcessor_init [''work''] (Some toy_manager) (Some ''secret'') None None ''HTTPS'' False
       ''main'' False None"



definition toy_ssh_processor :: processor where
  "toy_ssh_processor =
     ProjectProcessor_init [''work''] (Some toy_manager) (Some ''secret'') None None ''ssh'' False
       ''main'' False None"

definition toy_embed_processor :: processor where
  "toy_embed_processor =
     ProjectProcessor_init [''work''] (Some toy_manager) (Some ''secret'') None None ''HTTPS'' False
       ''main'' True None"

text \<open>The account already has the repository \<^verbatim>\<open>beta\<close>.\<close>

definition toy_hosted_state :: "toy state" where
  "toy_hosted_state = toy_state\<lparr>world := toy_world\<lparr>toy_remote := [''beta'']\<rparr>\<rparr>"

text \<open>
  The branch operations that were started between two states, and a statement that
  starts the operations \<open>xs\<close>: in this order, all of them when it returns, the first
  ones when it raises.
\<close>

definition started_ops :: "'w state \<Rightarrow> 'w state \<Rightarrow> branch_op list" where
  "started_ops s s' = List.map_filter started (new_events s s')"

definition starts :: "branch_op list \<Rightarrow> ('w, 'a) stmt \<Rightarrow> bool" where
  "starts xs m = (\<forall>s r s'. m s = (r, s') \<longrightarrow>
      prefix (trace s) (trace s') \<and> prefix (started_ops s s') xs
      \<and> (\<not> isl r \<longrightarrow> started_ops s s' = xs))"

text \<open>
  A request for two operations, and the state in which \<^verbatim>\<open>process_project\<close> reaches
  \<^verbatim>\<open>_do_branch_operations\<close> with it for the folder \<^verbatim>\<open>beta\<close>: after the initial push.
\<close>

definition toy_two_ops :: processor where
  "toy_two_ops = toy_processor\<lparr>do_branch_ops := \<lparr>create = Some ''dev'', rename = None, switch = Some ''main''\<rparr>\<rparr>"

definition toy_pushed_state :: "toy state" where
  "toy_pushed_state =
     snd (seq (steps_before_push toy_two_ops toy_sys [''work'', ''beta''])
            (push_step toy_two_ops toy_sys [''work'', ''beta''] ''main'') toy_state)"

text \<open>
  The git commands of a branch operation, in the order in which the source runs them,
  and whether they all exit with status zero when run one after the other from a world.
\<close>

fun commands_of :: "branch_op \<Rightarrow> string list list" where
  "commands_of (Create nm) =
     [[''git'', ''checkout'', ''-b'', nm], [''git'', ''push'', ''-u'', ''origin'', nm]]"
| "commands_of (Rename old new) =
     [[''git'', ''branch'', ''-m'', old, new], [''git'', ''push'', ''origin'', '':'' @ old],
      [''git'', ''push'', ''-u'', ''origin'', new]]"
| "commands_of (Switch nm) = [[''git'', ''checkout'', nm]]"

fun all_succeed :: "'w sys \<Rightarrow> path \<Rightarrow> string list list \<Rightarrow> 'w \<Rightarrow> bool" where
  "all_succeed sy cwd [] w = True"
| "all_succeed sy cwd (c # cs) w =
     (case exec sy c cwd None w of
        (Completed rc, w') \<Rightarrow> rc = 0 \<and> all_succeed sy cwd cs w'
      | (SpawnFailed m, w') \<Rightarrow> False)"

text \<open>
  An operation is applied when the source logs its success; \<open>applied_count\<close> counts the
  operations applied between two states.
\<close>

definition is_success_record :: "log_record \<Rightarrow> bool" where
  "is_success_record r =
     (case r of (l, c, m) \<Rightarrow>
        l = INFO \<and> c = GREEN
        \<and> (startswith m ''Created and pushed branch '' \<or> startswith m ''Renamed branch ''
             \<or> startswith m ''Switched to branch ''))"

definition applied_count :: "'w state \<Rightarrow> 'w state \<Rightarrow> nat" where
  "applied_count s s' = length (filter is_success_record (new_logs s s'))"

text \<open>\<open>counts\<close>: a statement applies no more operations than it starts.\<close>

definition counts :: "('w, 'a) stmt \<Rightarrow> bool" where
  "counts m = (\<forall>s r s'. m s = (r, s') \<longrightarrow>
      prefix (trace s) (trace s') \<and> prefix (logs s) (logs s')
      \<and> applied_count s s' \<le> length (started_ops s s'))"

text \<open>The commands of an operation run one after the other, as a statement.\<close>

fun run_all :: "'w sys \<Rightarrow> path \<Rightarrow> string list list \<Rightarrow> ('w, unit) stmt" where
  "run_all sy cwd [] = ret ()"
| "run_all sy cwd (c # cs) = seq (git sy c cwd) (run_all sy cwd cs)"

text \<open>A request for one operation.\<close>

definition toy_one_op :: processor where
  "toy_one_op = toy_processor\<lparr>do_branch_ops := \<lparr>create = Some ''dev'', rename = None, switch = None\<rparr>\<rparr>"








section \<open>Proofs\<close>

subsection \<open>The directory scan\<close>

lemma child_le_iff: "(parent @ [a] \<le> parent @ [b]) = (a \<le> (b::string))"
  by (induction parent) (auto simp: Cons_le_Cons)

lemma name_child: "name (parent @ [n]) = n"
  by (simp add: name_def)

lemma sorted_names_of_children:
  "sorted (map name (sort (map (\<lambda>n. parent @ [n]) ns)))"
proof -
  have "sorted_wrt (\<le>) (sort (map (\<lambda>n. parent @ [n]) ns))"
    by simp
  then have "sorted_wrt (\<lambda>x y. name x \<le> name y) (sort (map (\<lambda>n. parent @ [n]) ns))"
  proof (rule sorted_wrt_mono_rel [rotated])
    fix x y
    assume "x \<in> set (sort (map (\<lambda>n. parent @ [n]) ns))" "y \<in> set (sort (map (\<lambda>n. parent @ [n]) ns))"
      and "x \<le> y"
    then show "name x \<le> name y"
      by (auto simp: child_le_iff name_child)
  qed
  then show ?thesis
    by (simp add: sorted_map)
qed

lemma sort_cong_mset: "mset xs = mset ys \<Longrightarrow> sort xs = sort (ys :: 'a::linorder list)"
  by (rule properties_for_sort) simp_all

lemma get_subdirectories_sorted:
  "get_subdirectories sy parent w = Inr ps \<Longrightarrow> sorted (map name ps)"
  by (auto simp: get_subdirectories_def sorted_filter sorted_names_of_children split: if_splits)

lemma get_subdirectories_mset:
  assumes "get_subdirectories sy parent w = Inr ps"
  shows "mset ps = mset (map (\<lambda>n. parent @ [n])
               (filter (\<lambda>n. is_dir sy (parent @ [n]) w \<and> \<not> startswith n ''.'') (iterdir sy parent w)))"
proof -
  let ?P = "\<lambda>p. is_dir sy p w \<and> \<not> startswith (name p) ''.''"
  let ?cs = "map (\<lambda>n. parent @ [n]) (iterdir sy parent w)"
  have "ps = filter ?P (sort ?cs)"
    using assms by (simp add: get_subdirectories_def split: if_splits)
  then have "mset ps = mset (filter ?P ?cs)"
    by (simp del: mset_map)
  also have "filter ?P ?cs = map (\<lambda>n. parent @ [n])
               (filter (\<lambda>n. is_dir sy (parent @ [n]) w \<and> \<not> startswith n ''.'') (iterdir sy parent w))"
    by (simp add: filter_map comp_def name_child)
  finally show ?thesis .
qed

lemma get_subdirectories_stable:
  assumes "is_dir sy parent w" "is_dir sy parent w2"
    and "mset (iterdir sy parent w2) = mset (iterdir sy parent w)"
    and "\<forall>n \<in> set (iterdir sy parent w). is_dir sy (parent @ [n]) w2 = is_dir sy (parent @ [n]) w"
  shows "get_subdirectories sy parent w2 = get_subdirectories sy parent w"
proof -
  have "sort (map (\<lambda>n. parent @ [n]) (iterdir sy parent w2)) = sort (map (\<lambda>n. parent @ [n]) (iterdir sy parent w))"
    using assms(3) by (intro sort_cong_mset) simp
  moreover have "filter (\<lambda>p. is_dir sy p w2 \<and> \<not> startswith (name p) ''.'') (sort (map (\<lambda>n. parent @ [n]) (iterdir sy parent w)))
     = filter (\<lambda>p. is_dir sy p w \<and> \<not> startswith (name p) ''.'') (sort (map (\<lambda>n. parent @ [n]) (iterdir sy parent w)))"
    using assms(4) by (intro filter_cong) auto
  ultimately show ?thesis
    using assms(1,2) by (simp add: get_subdirectories_def)
qed


subsection \<open>What every statement preserves\<close>

lemma keepsI:
  "(\<And>s r s'. m s = (r, s') \<Longrightarrow> summary s' = summary s \<and> prefix (trace s) (trace s') \<and> prefix (logs s) (logs s')) \<Longrightarrow> keeps m"
  by (simp add: keeps_def)


lemma keeps_ret: "keeps (ret x)"
  by (simp add: keeps_def ret_def)

lemma keeps_raise: "keeps (raise e)"
  by (simp add: keeps_def raise_def)

lemma keeps_say: "keeps (say l c m)"
  by (auto simp: keeps_def say_def log_def)

lemma keeps_bind: "keeps m \<Longrightarrow> (\<And>x. keeps (f x)) \<Longrightarrow> keeps (bind m f)"
  unfolding keeps_def bind_def
  by (fastforce split: prod.splits sum.splits dest: prefix_order.trans)

lemma keeps_seq: "keeps m1 \<Longrightarrow> keeps m2 \<Longrightarrow> keeps (seq m1 m2)"
  by (simp add: seq_def keeps_bind)

lemma keeps_try_cpe: "keeps m \<Longrightarrow> (\<And>e. keeps (h e)) \<Longrightarrow> keeps (try_cpe m h)"
  unfolding keeps_def try_cpe_def
  by (fastforce split: prod.splits sum.splits if_splits dest: prefix_order.trans)

lemma keeps_try_exception: "keeps m \<Longrightarrow> (\<And>e. keeps (h e)) \<Longrightarrow> keeps (try_exception m h)"
  unfolding keeps_def try_exception_def
  by (fastforce split: prod.splits sum.splits dest: prefix_order.trans)

lemma keeps_if: "keeps m1 \<Longrightarrow> keeps m2 \<Longrightarrow> keeps (if b then m1 else m2)"
  by simp

lemma keeps_state_if: "keeps m1 \<Longrightarrow> keeps m2 \<Longrightarrow> keeps (\<lambda>s. if P s then m1 s else m2 s)"
  by (auto simp: keeps_def)

lemma keeps_run_git_cmd: "keeps (run_git_cmd sy args cwd check capture_output env)"
  by (auto simp: keeps_def run_git_cmd_def Let_def split: prod.splits proc_outcome.splits if_splits)

lemma keeps_git: "keeps (git sy args cwd)"
  by (simp add: git_def keeps_run_git_cmd)

lemma keeps_get_repo: "keeps (get_repo sy gh nm)"
  by (auto simp: keeps_def get_repo_def)

lemma keeps_user_create_repo: "keeps (user_create_repo sy gh nm priv description auto_init)"
  by (auto simp: keeps_def user_create_repo_def split: prod.splits)

lemma keeps_repo_edit: "keeps (repo_edit sy gh nm b)"
  by (auto simp: keeps_def repo_edit_def split: prod.splits)

lemma keeps_write_readme: "keeps (write_readme sy cwd)"
  by (auto simp: keeps_def write_readme_def Let_def)

lemmas keeps_intros =
  keeps_ret keeps_raise keeps_say keeps_bind keeps_seq keeps_try_cpe keeps_try_exception
  keeps_run_git_cmd keeps_git keeps_get_repo keeps_user_create_repo keeps_repo_edit
  keeps_write_readme keeps_state_if

lemma keeps_has_commits: "keeps (has_commits sy cwd)"
  unfolding has_commits_def by (intro keeps_intros)

lemma keeps_create_branch_op: "keeps (create_branch_op sy cwd nm)"
  unfolding create_branch_op_def by (intro keeps_intros)

lemma keeps_rename_branch_op: "keeps (rename_branch_op sy cwd old new)"
  unfolding rename_branch_op_def by (intro keeps_intros)

lemma keeps_switch_branch_op: "keeps (switch_branch_op sy cwd nm)"
  unfolding switch_branch_op_def by (intro keeps_intros)

lemma keeps_do_branch_operations: "keeps (do_branch_operations self sy cwd)"
  unfolding do_branch_operations_def Let_def
  by (auto intro!: keeps_intros keeps_create_branch_op keeps_rename_branch_op keeps_switch_branch_op
      split: option.splits)

lemma keeps_init_step: "keeps (init_step sy cwd)"
proof -
  have "init_step sy cwd = (\<lambda>s. if \<not> path_exists sy (cwd @ [''.git'']) (world s)
      then seq (say INFO YELLOW ''.git not found -> initializing git repository'')
             (seq (git sy [''git'', ''init''] cwd) (ret ())) s
      else say INFO GREEN ''.git found -> skipping git init'' s)"
    by (rule ext) (simp add: init_step_def)
  then show ?thesis
    by (simp only:) (intro keeps_intros)
qed

lemma keeps_config_step: "keeps (config_step self sy cwd)"
  unfolding config_step_def by (auto intro!: keeps_intros)

lemma keeps_initial_commit: "keeps (initial_commit sy cwd b)"
  unfolding initial_commit_def by (intro keeps_intros)

lemma keeps_commit_step: "keeps (commit_step sy cwd b)"
  unfolding commit_step_def by (auto intro!: keeps_intros keeps_has_commits keeps_initial_commit)

lemma keeps_create_repo: "keeps (create_repo sy gh nm priv description auto_init db)"
  unfolding create_repo_def by (auto intro!: keeps_intros split: exn.splits)

lemma keeps_remove_origin: "keeps (remove_origin sy cwd)"
  unfolding remove_origin_def by (intro keeps_intros)

lemma keeps_remote_step: "keeps (remote_step self sy cwd b)"
  unfolding remote_step_def Let_def
  by (auto intro!: keeps_intros keeps_create_repo keeps_remove_origin split: option.splits)

lemma keeps_push_step: "keeps (push_step self sy cwd b)"
  unfolding push_step_def Let_def by (intro keeps_intros)


subsection \<open>Commands run in the project directory\<close>

lemma new_events_append:
  "prefix (trace s) (trace s') \<Longrightarrow> trace s' = trace s @ new_events s s'"
  by (auto simp: new_events_def prefix_def)

lemma new_events_trans:
  "prefix (trace s0) (trace s1) \<Longrightarrow> prefix (trace s1) (trace s2) \<Longrightarrow>
   new_events s0 s2 = new_events s0 s1 @ new_events s1 s2"
  by (auto simp: new_events_def prefix_def)

lemma ran_mono:
  assumes r: "ran cwd s1 s2"
    and p: "prefix (trace (s0 :: 'w state)) (trace (s1 :: 'w state))" "prefix (trace s1) (trace s2)"
      "prefix (trace s2) (trace (s3 :: 'w state))"
  shows "ran cwd s0 s3"
proof -
  obtain a where a: "trace s1 = trace s0 @ a" using p(1) by (auto simp: prefix_def)
  obtain b where b: "trace s2 = trace s1 @ b" using p(2) by (auto simp: prefix_def)
  obtain c where c: "trace s3 = trace s2 @ c" using p(3) by (auto simp: prefix_def)
  have "new_events s1 s2 = b" using b by (simp add: new_events_def)
  moreover have "new_events s0 s3 = a @ b @ c" using a b c by (simp add: new_events_def)
  ultimately show ?thesis using r by (auto simp: ran_def)
qed

lemma run_git_cmd_ran: "run_git_cmd sy args cwd check cap env s = (r, s') \<Longrightarrow> ran cwd s s'"
  by (auto simp: run_git_cmd_def ran_def new_events_def Let_def
      split: prod.splits proc_outcome.splits if_splits)

lemma extends_keeps: "keeps m \<Longrightarrow> extends m"
  by (auto simp: keeps_def extends_def)

lemma ran_left: "ran cwd s s1 \<Longrightarrow> prefix (trace s) (trace s1) \<Longrightarrow> prefix (trace s1) (trace s2) \<Longrightarrow> ran cwd s s2"
  by (rule ran_mono [where ?s1.0 = s and ?s2.0 = s1]) auto

lemma ran_right: "ran cwd s1 s2 \<Longrightarrow> prefix (trace s) (trace s1) \<Longrightarrow> prefix (trace s1) (trace s2) \<Longrightarrow> ran cwd s s2"
  by (rule ran_mono [where ?s1.0 = s1 and ?s2.0 = s2]) auto

lemma always_runs_git: "always_runs cwd (git sy args cwd)"
  by (auto simp: always_runs_def git_def dest: run_git_cmd_ran)

lemma always_runs_run: "always_runs cwd (run_git_cmd sy args cwd check cap env)"
  by (auto simp: always_runs_def dest: run_git_cmd_ran)

lemma always_runs_seq1:
  assumes "always_runs cwd m1" "extends m1" "extends m2"
  shows "always_runs cwd (seq m1 m2)"
  unfolding always_runs_def seq_def bind_def
proof (intro allI impI)
  fix s r s'
  assume h: "(case m1 s of (Inl e, s') \<Rightarrow> (Inl e, s') | (Inr x, s') \<Rightarrow> m2 s') = (r, s')"
  obtain r1 s1 where m1: "m1 s = (r1, s1)" by (cases "m1 s")
  have r1: "ran cwd s s1" and p1: "prefix (trace s) (trace s1)"
    using assms(1,2) m1 by (auto simp: always_runs_def extends_def)
  show "ran cwd s s'"
  proof (cases r1)
    case (Inl e)
    then show ?thesis using h m1 r1 by simp
  next
    case (Inr x)
    then have "m2 s1 = (r, s')" using h m1 by simp
    then have "prefix (trace s1) (trace s')" using assms(3) by (auto simp: extends_def)
    then show ?thesis using r1 p1 by (rule ran_left [rotated -1]) 
  qed
qed

lemma always_runs_seq2:
  assumes "runs_or_returns cwd m1" "extends m1" "always_runs cwd m2" "extends m2"
  shows "always_runs cwd (seq m1 m2)"
  unfolding always_runs_def seq_def bind_def
proof (intro allI impI)
  fix s r s'
  assume h: "(case m1 s of (Inl e, s') \<Rightarrow> (Inl e, s') | (Inr x, s') \<Rightarrow> m2 s') = (r, s')"
  obtain r1 s1 where m1: "m1 s = (r1, s1)" by (cases "m1 s")
  have p1: "prefix (trace s) (trace s1)"
    using assms(2) m1 by (auto simp: extends_def)
  show "ran cwd s s'"
  proof (cases r1)
    case (Inl e)
    then show ?thesis using h m1 assms(1) by (auto simp: runs_or_returns_def)
  next
    case (Inr x)
    then have m2: "m2 s1 = (r, s')" using h m1 by simp
    then have "prefix (trace s1) (trace s')" "ran cwd s1 s'"
      using assms(3,4) by (auto simp: extends_def always_runs_def)
    then show ?thesis using p1 by (meson ran_right)
  qed
qed

lemma always_runs_bind1:
  assumes "always_runs cwd m" "extends m" "\<And>x. extends (f x)"
  shows "always_runs cwd (bind m f)"
  unfolding always_runs_def bind_def
proof (intro allI impI)
  fix s r s'
  assume h: "(case m s of (Inl e, s') \<Rightarrow> (Inl e, s') | (Inr x, s') \<Rightarrow> f x s') = (r, s')"
  obtain r1 s1 where m1: "m s = (r1, s1)" by (cases "m s")
  have r1: "ran cwd s s1" and p1: "prefix (trace s) (trace s1)"
    using assms(1,2) m1 by (auto simp: always_runs_def extends_def)
  show "ran cwd s s'"
  proof (cases r1)
    case (Inl e)
    then show ?thesis using h m1 r1 by simp
  next
    case (Inr x)
    then have "f x s1 = (r, s')" using h m1 by simp
    then have "prefix (trace s1) (trace s')" using assms(3) by (auto simp: extends_def)
    then show ?thesis using r1 p1 by (meson ran_left)
  qed
qed

lemma always_runs_try_cpe:
  assumes "always_runs cwd m" "extends m" "\<And>e. extends (h e)"
  shows "always_runs cwd (try_cpe m h)"
  unfolding always_runs_def try_cpe_def
proof (intro allI impI)
  fix s r s'
  assume h: "(case m s of (Inl e, s') \<Rightarrow> if is_cpe e then h e s' else (Inl e, s') | (Inr x, s') \<Rightarrow> (Inr x, s')) = (r, s')"
  obtain r1 s1 where m1: "m s = (r1, s1)" by (cases "m s")
  have r1: "ran cwd s s1" and p1: "prefix (trace s) (trace s1)"
    using assms(1,2) m1 by (auto simp: always_runs_def extends_def)
  show "ran cwd s s'"
  proof (cases "\<exists>e. r1 = Inl e \<and> is_cpe e")
    case True
    then obtain e where e: "r1 = Inl e" "is_cpe e" by auto
    then have "h e s1 = (r, s')" using h m1 by simp
    then have "prefix (trace s1) (trace s')" using assms(3) by (auto simp: extends_def)
    then show ?thesis using r1 p1 by (meson ran_left)
  next
    case False
    then have "s' = s1" using h m1 by (cases r1) (auto split: if_splits)
    then show ?thesis using r1 by simp
  qed
qed

lemma runs_or_returns_always: "always_runs cwd m \<Longrightarrow> runs_or_returns cwd m"
  by (auto simp: always_runs_def runs_or_returns_def)

lemma runs_or_returns_total: "(\<And>s. \<exists>x s'. m s = (Inr x, s')) \<Longrightarrow> runs_or_returns cwd m"
  unfolding runs_or_returns_def by (metis Inl_Inr_False prod.inject)

lemma always_runs_has_commits: "always_runs cwd (has_commits sy cwd)"
  unfolding has_commits_def
  by (intro always_runs_try_cpe always_runs_seq1 always_runs_run extends_keeps keeps_intros)

lemma always_runs_commit_step: "always_runs cwd (commit_step sy cwd b)"
  unfolding commit_step_def
  by (intro always_runs_bind1 always_runs_has_commits extends_keeps keeps_has_commits)
     (auto intro!: keeps_intros keeps_initial_commit)

lemma runs_or_returns_init_step: "runs_or_returns cwd (init_step sy cwd)"
  unfolding runs_or_returns_def
proof (intro allI impI)
  fix s e s'
  assume h: "init_step sy cwd s = (Inl e, s')"
  show "ran cwd s s'"
  proof (cases "path_exists sy (cwd @ [''.git'']) (world s)")
    case True
    then show ?thesis using h by (simp add: init_step_def say_def)
  next
    case False
    have "always_runs cwd (seq (say INFO YELLOW ''.git not found -> initializing git repository'')
             (seq (git sy [''git'', ''init''] cwd) (ret ())))"
      by (intro always_runs_seq2 always_runs_seq1 always_runs_git extends_keeps keeps_intros runs_or_returns_total)
         (simp add: say_def)
    then show ?thesis using h False by (simp add: init_step_def always_runs_def)
  qed
qed

lemma runs_or_returns_seq:
  assumes "runs_or_returns cwd m1" "extends m1" "runs_or_returns cwd m2" "extends m2"
  shows "runs_or_returns cwd (seq m1 m2)"
  unfolding runs_or_returns_def seq_def bind_def
proof (intro allI impI)
  fix s e s'
  assume h: "(case m1 s of (Inl e, s') \<Rightarrow> (Inl e, s') | (Inr x, s') \<Rightarrow> m2 s') = (Inl e, s')"
  obtain r1 s1 where m1: "m1 s = (r1, s1)" by (cases "m1 s")
  have p1: "prefix (trace s) (trace s1)"
    using assms(2) m1 by (auto simp: extends_def)
  show "ran cwd s s'"
  proof (cases r1)
    case (Inl e1)
    then show ?thesis using h m1 assms(1) by (auto simp: runs_or_returns_def)
  next
    case (Inr x)
    then have m2: "m2 s1 = (Inl e, s')" using h m1 by simp
    then have "prefix (trace s1) (trace s')" "ran cwd s1 s'"
      using assms(3,4) by (auto simp: extends_def runs_or_returns_def)
    then show ?thesis using p1 by (meson ran_right)
  qed
qed

lemma runs_or_returns_ret: "runs_or_returns cwd (ret x)"
  by (simp add: runs_or_returns_def ret_def)

lemma runs_or_returns_git_ret: "runs_or_returns cwd (seq (git sy args cwd) (ret ()))"
  by (intro runs_or_returns_always always_runs_seq1 always_runs_git extends_keeps keeps_intros)

lemma runs_or_returns_config_step: "runs_or_returns cwd (config_step self sy cwd)"
  unfolding config_step_def
  by (intro runs_or_returns_seq extends_keeps)
     (simp_all add: runs_or_returns_ret runs_or_returns_git_ret keeps_intros)


subsection \<open>One project, and the loop over all of them\<close>

lemma extends_records: "records p m \<Longrightarrow> extends m"
  by (auto simp: records_def extends_def)

lemma records_seq:
  assumes "keeps m1" "records p m2"
  shows "records p (seq m1 m2)"
  unfolding records_def
proof (intro allI impI)
  fix s r s'
  assume h: "seq m1 m2 s = (r, s')"
  obtain r1 s1 where m1: "m1 s = (r1, s1)" by (cases "m1 s")
  have k: "summary s1 = summary s" "prefix (trace s) (trace s1)"
    using assms(1) m1 by (auto simp: keeps_def)
  show "prefix (trace s) (trace s') \<and>
      (case r of Inl e \<Rightarrow> summary s' = summary s
               | Inr x \<Rightarrow> summary s' = summary s @ [(name p, True, ''OK'')])"
  proof (cases r1)
    case (Inl e)
    then have "r = Inl e" "s' = s1" using h m1 by (simp_all add: seq_def bind_def)
    then show ?thesis using k by simp
  next
    case (Inr x)
    then have m2: "m2 s1 = (r, s')" using h m1 by (simp add: seq_def bind_def)
    have "prefix (trace s1) (trace s') \<and>
      (case r of Inl e \<Rightarrow> summary s' = summary s1
               | Inr x \<Rightarrow> summary s' = summary s1 @ [(name p, True, ''OK'')])"
      using assms(2) m2 unfolding records_def by blast
    then show ?thesis using k by (auto dest: prefix_order.trans split: sum.splits)
  qed
qed

lemma records_tail: "records p (seq (record_success p) (say l c m))"
  by (auto simp: records_def seq_def bind_def record_success_def say_def log_def)

lemmas records_rules =
  records_tail records_seq keeps_say keeps_init_step keeps_config_step keeps_commit_step
  keeps_remote_step keeps_push_step keeps_do_branch_operations

lemma records_process_project: "records p (process_project self sy p)"
  unfolding process_project_def Let_def
  apply (rule records_seq, rule keeps_say)
  apply (rule records_seq, rule keeps_init_step)
  apply (rule records_seq, rule keeps_config_step)
  apply (rule records_seq, rule keeps_commit_step)
  apply (rule records_seq, rule keeps_remote_step)
  apply (rule records_seq, rule keeps_push_step)
  apply (rule records_seq, rule keeps_do_branch_operations)
  apply (rule records_tail)
  done

lemma always_runs_process_project: "always_runs p (process_project self sy p)"
proof -
  define b where "b = (if default_branch self \<noteq> [] then default_branch self
                         else default_initial_branch_name (name p))"
  define rest where "rest = seq (remote_step self sy p b) (seq (push_step self sy p b)
      (seq (do_branch_operations self sy p) (seq (record_success p)
        (say INFO BRIGHT (''=== Finished: '' @ name p @ '' ==='' @ [CHR 0x0A])))))"
  have rest: "extends rest"
    unfolding rest_def by (rule extends_records [where p = p]) (rule records_rules)+
  have c: "always_runs p (seq (commit_step sy p b) rest)"
    by (rule always_runs_seq1 [OF always_runs_commit_step extends_keeps [OF keeps_commit_step] rest])
  have ce: "extends (seq (commit_step sy p b) rest)"
    unfolding rest_def by (rule extends_records [where p = p]) (rule records_rules)+
  have d: "always_runs p (seq (config_step self sy p) (seq (commit_step sy p b) rest))"
    by (rule always_runs_seq2 [OF runs_or_returns_config_step extends_keeps [OF keeps_config_step] c ce])
  have de: "extends (seq (config_step self sy p) (seq (commit_step sy p b) rest))"
    unfolding rest_def by (rule extends_records [where p = p]) (rule records_rules)+
  have i: "always_runs p (seq (init_step sy p) (seq (config_step self sy p) (seq (commit_step sy p b) rest)))"
    by (rule always_runs_seq2 [OF runs_or_returns_init_step extends_keeps [OF keeps_init_step] d de])
  have ie: "extends (seq (init_step sy p) (seq (config_step self sy p) (seq (commit_step sy p b) rest)))"
    unfolding rest_def by (rule extends_records [where p = p]) (rule records_rules)+
  have banner: "runs_or_returns p (say INFO BRIGHT ([CHR 0x0A] @ ''=== Processing: '' @ name p @ '' ===''))"
    by (rule runs_or_returns_total) (simp add: say_def)
  have "always_runs p (seq (say INFO BRIGHT ([CHR 0x0A] @ ''=== Processing: '' @ name p @ '' ===''))
      (seq (init_step sy p) (seq (config_step self sy p) (seq (commit_step sy p b) rest))))"
    by (rule always_runs_seq2 [OF banner extends_keeps [OF keeps_say] i ie])
  then show ?thesis
    by (simp add: process_project_def Let_def rest_def b_def)
qed

lemma process_one_raised:
  assumes "fst (process_project self sy p s) = Inl e"
  shows "process_one self sy p s =
           (log ERROR RED (''Failed processing '' @ name p @ '': '' @ str_exn sy e)
              (snd (process_project self sy p s)))
           \<lparr>summary := summary (snd (process_project self sy p s)) @ [(name p, False, str_exn sy e)]\<rparr>"
  using assms by (cases "process_project self sy p s") (simp add: process_one_def)

lemma process_one_returned:
  assumes "fst (process_project self sy p s) = Inr x"
  shows "process_one self sy p s = snd (process_project self sy p s)"
  using assms by (cases "process_project self sy p s") (simp add: process_one_def)

lemma process_one_trace:
  "trace (process_one self sy p s) = trace (snd (process_project self sy p s))"
  by (cases "process_project self sy p s") (auto simp: process_one_def log_def split: sum.splits)

lemma process_one_extends: "prefix (trace s) (trace (process_one self sy p s))"
  using records_process_project [of p self sy]
  by (cases "process_project self sy p s") (auto simp: process_one_trace records_def)

lemma process_one_ran: "ran p s (process_one self sy p s)"
  using always_runs_process_project [of p self sy]
  by (cases "process_project self sy p s")
     (auto simp: always_runs_def ran_def new_events_def process_one_trace)

lemma process_one_summary:
  "\<exists>entry. summary (process_one self sy p s) = summary s @ [entry]
     \<and> (entry = (name p, True, ''OK'') \<or> (\<exists>reason. entry = (name p, False, reason)))"
proof (cases "process_project self sy p s")
  case (Pair r s')
  have *: "case r of Inl e \<Rightarrow> summary s' = summary s
               | Inr x \<Rightarrow> summary s' = summary s @ [(name p, True, ''OK'')]"
    using records_process_project [of p self sy] Pair unfolding records_def by blast
  show ?thesis
    using * Pair by (cases r) (auto simp: process_one_def log_def)
qed

lemma process_loop_append:
  "process_loop self sy (xs @ ys) s = process_loop self sy ys (process_loop self sy xs s)"
  by (induction xs arbitrary: s) auto

lemma process_loop_extends: "prefix (trace s) (trace (process_loop self sy ps s))"
proof (induction ps arbitrary: s)
  case Nil
  show ?case by simp
next
  case (Cons p ps)
  show ?case
    using process_one_extends [of s self sy p] Cons [of "process_one self sy p s"]
    by (auto dest: prefix_order.trans)
qed

lemma process_loop_ran: "q \<in> set ps \<Longrightarrow> ran q s (process_loop self sy ps s)"
proof (induction ps arbitrary: s)
  case Nil
  then show ?case by simp
next
  case (Cons p ps)
  show ?case
  proof (cases "q = p")
    case True
    show ?thesis
      unfolding True process_loop.simps
      by (rule ran_left [OF process_one_ran process_one_extends process_loop_extends])
  next
    case False
    then have "ran q (process_one self sy p s) (process_loop self sy ps (process_one self sy p s))"
      using Cons by simp
    then show ?thesis
      unfolding process_loop.simps
      by (rule ran_right [OF _ process_one_extends process_loop_extends])
  qed
qed


lemma process_loop_summary:
  "\<exists>entries. summary (process_loop self sy ps s) = summary s @ entries
     \<and> list_all2 (\<lambda>p entry. entry = (name p, True, ''OK'') \<or> (\<exists>reason. entry = (name p, False, reason)))
          ps entries"
proof (induction ps arbitrary: s)
  case Nil
  show ?case by simp
next
  case (Cons p ps)
  obtain entry where e: "summary (process_one self sy p s) = summary s @ [entry]"
    "entry = (name p, True, ''OK'') \<or> (\<exists>reason. entry = (name p, False, reason))"
    using process_one_summary [of self sy p s] by auto
  obtain entries where es: "summary (process_loop self sy ps (process_one self sy p s))
      = summary (process_one self sy p s) @ entries"
    "list_all2 (\<lambda>p entry. entry = (name p, True, ''OK'') \<or> (\<exists>reason. entry = (name p, False, reason)))
          ps entries"
    using Cons [of "process_one self sy p s"] by auto
  show ?case
    using e(1) es(1) es(2) e(2) by (intro exI [of _ "entry # entries"]) simp
qed

lemma process_all_returns:
  "get_subdirectories sy (parent_dir self) (world s) = Inr ps \<Longrightarrow> fst (process_all self sy s) = Inr ()"
  by (simp add: process_all_def Let_def)

lemma summary_report_summary: "summary (report_summary s) = summary s"
  by (simp add: report_summary_def Let_def)


text \<open>
  Claim C1. The loop of \<^verbatim>\<open>process_all\<close> isolates failures. If the processing of a
  project \<open>p\<close> raises an exception \<open>e\<close> (a failed push included), the exception is caught
  at the project boundary: the failure outcome \<open>(name p, False, str e)\<close> is appended to
  the summary, every project after \<open>p\<close> in scan order still gets a command run in its
  directory after that point, and \<^verbatim>\<open>process_all\<close> itself returns normally whenever the
  scan has succeeded.
\<close>

theorem process_loop_isolates_failures:
  assumes "fst (process_project self sy p (process_loop self sy before s)) = Inl e"
  shows "(\<exists>entries.
            summary (process_loop self sy (before @ p # after) s)
              = summary (snd (process_project self sy p (process_loop self sy before s)))
                  @ (name p, False, str_exn sy e) # entries
            \<and> length entries = length after)
       \<and> (\<forall>q \<in> set after. \<exists>args env. Run args q env
             \<in> set (new_events (snd (process_project self sy p (process_loop self sy before s)))
                      (process_loop self sy (before @ p # after) s)))
       \<and> (\<forall>s0. get_subdirectories sy (parent_dir self) (world s0) = Inr (before @ p # after)
             \<longrightarrow> fst (process_all self sy s0) = Inr ())"
proof -
  let ?sb = "process_loop self sy before s"
  let ?se = "snd (process_project self sy p ?sb)"
  let ?s1 = "process_one self sy p ?sb"
  let ?fin = "process_loop self sy (before @ p # after) s"
  have fin: "?fin = process_loop self sy after ?s1"
    by (simp add: process_loop_append)
  have s1: "summary ?s1 = summary ?se @ [(name p, False, str_exn sy e)]"
    using process_one_raised [OF assms] by simp
  have t1: "trace ?s1 = trace ?se"
    by (rule process_one_trace)
  obtain entries where es: "summary (process_loop self sy after ?s1) = summary ?s1 @ entries"
    "list_all2 (\<lambda>p entry. entry = (name p, True, ''OK'') \<or> (\<exists>reason. entry = (name p, False, reason)))
          after entries"
    using process_loop_summary by blast
  have A: "\<exists>entries. summary ?fin = summary ?se @ (name p, False, str_exn sy e) # entries
            \<and> length entries = length after"
    using es(1) s1 fin list_all2_lengthD [OF es(2)] by (intro exI [of _ entries]) simp
  have B: "\<forall>q \<in> set after. \<exists>args env. Run args q env \<in> set (new_events ?se ?fin)"
  proof
    fix q assume "q \<in> set after"
    then have "ran q ?s1 (process_loop self sy after ?s1)"
      by (rule process_loop_ran)
    then show "\<exists>args env. Run args q env \<in> set (new_events ?se ?fin)"
      using fin t1 by (simp add: ran_def new_events_def)
  qed
  have C: "\<forall>s0. get_subdirectories sy (parent_dir self) (world s0) = Inr (before @ p # after)
             \<longrightarrow> fst (process_all self sy s0) = Inr ()"
    by (simp add: process_all_returns)
  show ?thesis
    using A B C by blast
qed

theorem process_loop_isolates_failures_witness:
  "fst (process_project toy_processor toy_sys [''work'', ''alpha''] (process_loop toy_processor toy_sys [] toy_state))
     = Inl (RuntimeError ''Failed to push alpha: Command git push -u origin main returned non-zero exit status'')
   \<and> (\<exists>entries.
          summary (process_loop toy_processor toy_sys ([] @ [''work'', ''alpha''] # [[''work'', ''beta'']]) toy_state)
            = summary (snd (process_project toy_processor toy_sys [''work'', ''alpha'']
                              (process_loop toy_processor toy_sys [] toy_state)))
                @ (name [''work'', ''alpha''], False,
                   str_exn toy_sys (RuntimeError ''Failed to push alpha: Command git push -u origin main returned non-zero exit status''))
                  # entries
          \<and> length entries = length [[''work'', ''beta'']])
   \<and> (\<exists>args env. Run args [''work'', ''beta''] env
          \<in> set (new_events (snd (process_project toy_processor toy_sys [''work'', ''alpha'']
                                     (process_loop toy_processor toy_sys [] toy_state)))
                   (process_loop toy_processor toy_sys ([] @ [''work'', ''alpha''] # [[''work'', ''beta'']]) toy_state)))
   \<and> get_subdirectories toy_sys (parent_dir toy_processor) (world toy_state)
        = Inr ([] @ [''work'', ''alpha''] # [[''work'', ''beta'']])
   \<and> fst (process_all toy_processor toy_sys toy_state) = Inr ()"
proof -
  have h: "fst (process_project toy_processor toy_sys [''work'', ''alpha''] (process_loop toy_processor toy_sys [] toy_state))
     = Inl (RuntimeError ''Failed to push alpha: Command git push -u origin main returned non-zero exit status'')"
    by code_simp
  have scan: "get_subdirectories toy_sys (parent_dir toy_processor) (world toy_state)
        = Inr ([] @ [''work'', ''alpha''] # [[''work'', ''beta'']])"
    by code_simp
  note inst = process_loop_isolates_failures [OF h, of "[[''work'', ''beta'']]"]
  have beta: "[''work'', ''beta''] \<in> set [[''work'', ''beta'']]"
    by simp
  show ?thesis
    using h scan inst beta by (intro conjI) blast+
qed

text \<open>
  Claim C10. When \<^verbatim>\<open>process_all\<close> has completed, the summary has grown by exactly one
  entry per scanned project, in scan order, and the entry of a project is either
  \<open>(name, True, ''OK'')\<close> or \<open>(name, False, reason)\<close>: no project has two entries and
  no entry belongs to a directory that was not scanned. (The summary of a new
  \<^verbatim>\<open>ProjectProcessor\<close> is empty.)
\<close>

theorem summary_one_entry_per_project:
  assumes "fst (process_all self sy s) = Inr ()"
  shows "\<exists>projects entries.
           get_subdirectories sy (parent_dir self) (world s) = Inr projects
         \<and> summary (snd (process_all self sy s)) = summary s @ entries
         \<and> list_all2 (\<lambda>p entry. entry = (name p, True, ''OK'') \<or> (\<exists>reason. entry = (name p, False, reason)))
              projects entries"
proof (cases "get_subdirectories sy (parent_dir self) (world s)")
  case (Inl e)
  then show ?thesis using assms by (simp add: process_all_def)
next
  case (Inr ps)
  show ?thesis
  proof (cases "ps = []")
    case True
    then show ?thesis using Inr by (simp add: process_all_def log_def)
  next
    case False
    let ?s1 = "log INFO CYAN (''Found '' @ str_nat (length ps) @ '' projects. Beginning processing in order.'') s"
    obtain entries where es: "summary (process_loop self sy ps ?s1) = summary ?s1 @ entries"
      "list_all2 (\<lambda>p entry. entry = (name p, True, ''OK'') \<or> (\<exists>reason. entry = (name p, False, reason)))
          ps entries"
      using process_loop_summary by blast
    have "summary (snd (process_all self sy s)) = summary s @ entries"
      using Inr False es(1) by (simp add: process_all_def Let_def summary_report_summary log_def)
    then show ?thesis using Inr es(2) by blast
  qed
qed

theorem summary_one_entry_per_project_witness:
  "fst (process_all toy_processor toy_sys toy_state) = Inr ()
   \<and> (\<exists>projects entries.
           get_subdirectories toy_sys (parent_dir toy_processor) (world toy_state) = Inr projects
         \<and> summary (snd (process_all toy_processor toy_sys toy_state)) = summary toy_state @ entries
         \<and> list_all2 (\<lambda>p entry. entry = (name p, True, ''OK'') \<or> (\<exists>reason. entry = (name p, False, reason)))
              projects entries)"
proof -
  have h: "fst (process_all toy_processor toy_sys toy_state) = Inr ()"
    by code_simp
  show ?thesis
    using h summary_one_entry_per_project [OF h] by blast
qed

subsection \<open>The directory scan, as a whole\<close>

text \<open>
  Claim C5. The directory scan. For a parent path that is not a directory,
  \<^verbatim>\<open>get_subdirectories\<close> fails with \<^verbatim>\<open>NotADirectoryError\<close>. For a directory it returns
  exactly the children that are directories and whose names do not start with a dot
  (as a multiset: each as often as it is listed), sorted by name; the result depends on
  the entries of the directory and not on the order in which they are listed, so two
  scans of an unchanged directory agree. On an empty result \<^verbatim>\<open>process_all\<close> returns
  normally after logging one notice, and does nothing else.
\<close>

theorem get_subdirectories_scan:
  "(\<not> is_dir sy parent w \<longrightarrow> (\<exists>m. get_subdirectories sy parent w = Inl (NotADirectoryError m)))
 \<and> (is_dir sy parent w \<longrightarrow>
      (\<exists>ps. get_subdirectories sy parent w = Inr ps
         \<and> mset ps = mset (map (\<lambda>n. parent @ [n])
                        (filter (\<lambda>n. is_dir sy (parent @ [n]) w \<and> \<not> startswith n ''.'')
                           (iterdir sy parent w)))
         \<and> sorted (map name ps)
         \<and> (\<forall>w2. is_dir sy parent w2
                 \<and> mset (iterdir sy parent w2) = mset (iterdir sy parent w)
                 \<and> (\<forall>n \<in> set (iterdir sy parent w). is_dir sy (parent @ [n]) w2 = is_dir sy (parent @ [n]) w)
               \<longrightarrow> get_subdirectories sy parent w2 = Inr ps)))
 \<and> (get_subdirectories sy (parent_dir self) (world s) = Inr [] \<longrightarrow>
      process_all self sy s
        = (Inr (), log INFO YELLOW ''No subdirectories found under the parent path.'' s))"
proof (intro conjI impI)
  assume "\<not> is_dir sy parent w"
  then show "\<exists>m. get_subdirectories sy parent w = Inl (NotADirectoryError m)"
    by (simp add: get_subdirectories_def)
next
  assume d: "is_dir sy parent w"
  then obtain ps where ps: "get_subdirectories sy parent w = Inr ps"
    by (simp add: get_subdirectories_def)
  have stable: "\<forall>w2. is_dir sy parent w2
                 \<and> mset (iterdir sy parent w2) = mset (iterdir sy parent w)
                 \<and> (\<forall>n \<in> set (iterdir sy parent w). is_dir sy (parent @ [n]) w2 = is_dir sy (parent @ [n]) w)
               \<longrightarrow> get_subdirectories sy parent w2 = Inr ps"
    using get_subdirectories_stable [OF d] ps by metis
  show "\<exists>ps. get_subdirectories sy parent w = Inr ps
         \<and> mset ps = mset (map (\<lambda>n. parent @ [n])
                        (filter (\<lambda>n. is_dir sy (parent @ [n]) w \<and> \<not> startswith n ''.'')
                           (iterdir sy parent w)))
         \<and> sorted (map name ps)
         \<and> (\<forall>w2. is_dir sy parent w2
                 \<and> mset (iterdir sy parent w2) = mset (iterdir sy parent w)
                 \<and> (\<forall>n \<in> set (iterdir sy parent w). is_dir sy (parent @ [n]) w2 = is_dir sy (parent @ [n]) w)
               \<longrightarrow> get_subdirectories sy parent w2 = Inr ps)"
    using ps get_subdirectories_mset [OF ps] get_subdirectories_sorted [OF ps] stable
    by (intro exI [of _ ps] conjI)
next
  assume "get_subdirectories sy (parent_dir self) (world s) = Inr []"
  then show "process_all self sy s
        = (Inr (), log INFO YELLOW ''No subdirectories found under the parent path.'' s)"
    by (simp add: process_all_def)
qed

theorem get_subdirectories_scan_witness:
  "\<not> is_dir toy_sys [''nowhere''] toy_world
 \<and> (\<exists>m. get_subdirectories toy_sys [''nowhere''] toy_world = Inl (NotADirectoryError m))
 \<and> is_dir toy_sys [''work''] toy_world
 \<and> (\<exists>ps. get_subdirectories toy_sys [''work''] toy_world = Inr ps
         \<and> mset ps = mset (map (\<lambda>n. [''work''] @ [n])
                        (filter (\<lambda>n. is_dir toy_sys ([''work''] @ [n]) toy_world \<and> \<not> startswith n ''.'')
                           (iterdir toy_sys [''work''] toy_world)))
         \<and> sorted (map name ps))
 \<and> get_subdirectories toy_sys [''work''] toy_world = Inr [[''work'', ''alpha''], [''work'', ''beta'']]
 \<and> get_subdirectories toy_sys (parent_dir (toy_processor\<lparr>parent_dir := [''work'', ''alpha'']\<rparr>)) (world toy_state) = Inr []
 \<and> process_all (toy_processor\<lparr>parent_dir := [''work'', ''alpha'']\<rparr>) toy_sys toy_state
        = (Inr (), log INFO YELLOW ''No subdirectories found under the parent path.'' toy_state)"
proof -
  have h1: "\<not> is_dir toy_sys [''nowhere''] toy_world"
    by code_simp
  have h2: "is_dir toy_sys [''work''] toy_world"
    by code_simp
  have h3: "get_subdirectories toy_sys (parent_dir (toy_processor\<lparr>parent_dir := [''work'', ''alpha'']\<rparr>)) (world toy_state) = Inr []"
    by code_simp
  have v: "get_subdirectories toy_sys [''work''] toy_world = Inr [[''work'', ''alpha''], [''work'', ''beta'']]"
    by code_simp
  note a = get_subdirectories_scan [of toy_sys "[''nowhere'']" toy_world]
  note b = get_subdirectories_scan [of toy_sys "[''work'']" toy_world]
  note c = get_subdirectories_scan [of toy_sys _ _ "toy_processor\<lparr>parent_dir := [''work'', ''alpha'']\<rparr>" toy_state]
  show ?thesis
    using h1 h2 h3 v a b c by (intro conjI) blast+
qed

subsection \<open>The token\<close>

lemma remote_url_for_token:
  "protocol self \<noteq> ''HTTPS'' \<or> \<not> push_via_token_in_https self \<or> (\<not> truthy t1 \<and> \<not> truthy t2) \<Longrightarrow>
   remote_url_for (self\<lparr>token := t1\<rparr>) repo = remote_url_for (self\<lparr>token := t2\<rparr>) repo"
  by (auto simp: remote_url_for_def)

lemma remote_step_token:
  "protocol self \<noteq> ''HTTPS'' \<or> \<not> push_via_token_in_https self \<or> (\<not> truthy t1 \<and> \<not> truthy t2) \<Longrightarrow>
   remote_step (self\<lparr>token := t1\<rparr>) sy cwd b = remote_step (self\<lparr>token := t2\<rparr>) sy cwd b"
  using remote_url_for_token [of self t1 t2]
  by (simp add: remote_step_def split: option.splits)

text \<open>
  Claim C9. The token reaches git only through the embedded HTTPS URL. Two runs of
  \<^verbatim>\<open>process_project\<close> that differ only in \<^verbatim>\<open>self.token\<close> end with the same result and the
  same state (the same trace of commands with the same arguments, the same remote URL
  added as \<^verbatim>\<open>origin\<close>), whenever the protocol is not HTTPS (SSH in particular), or the
  embedding flag is unset, or neither token is present. The manager, whose client was
  built from a token of its own, is the same in both runs.
\<close>

theorem token_noninterference:
  assumes "protocol self \<noteq> ''HTTPS'' \<or> \<not> push_via_token_in_https self \<or> (\<not> truthy t1 \<and> \<not> truthy t2)"
  shows "process_project (self\<lparr>token := t1\<rparr>) sy p s = process_project (self\<lparr>token := t2\<rparr>) sy p s"
proof -
  have "config_step (self\<lparr>token := t1\<rparr>) sy p = config_step (self\<lparr>token := t2\<rparr>) sy p"
    by (simp add: config_step_def)
  moreover have "push_step (self\<lparr>token := t1\<rparr>) sy p = push_step (self\<lparr>token := t2\<rparr>) sy p"
    by (rule ext) (simp add: push_step_def)
  moreover have "do_branch_operations (self\<lparr>token := t1\<rparr>) sy p = do_branch_operations (self\<lparr>token := t2\<rparr>) sy p"
    by (simp add: do_branch_operations_def)
  moreover have "remote_step (self\<lparr>token := t1\<rparr>) sy p = remote_step (self\<lparr>token := t2\<rparr>) sy p"
    by (rule ext) (rule remote_step_token [OF assms])
  ultimately show ?thesis
    by (simp add: process_project_def)
qed

theorem token_noninterference_witness:
  "protocol toy_ssh_processor = ''SSH''
   \<and> process_project (toy_ssh_processor\<lparr>token := Some ''secret''\<rparr>) toy_sys [''work'', ''beta''] toy_state
     = process_project (toy_ssh_processor\<lparr>token := Some ''other''\<rparr>) toy_sys [''work'', ''beta''] toy_state
   \<and> Run [''git'', ''remote'', ''add'', ''origin'', ''git@github.com:octocat/beta.git''] [''work'', ''beta''] None
       \<in> set (trace (snd (process_project (toy_ssh_processor\<lparr>token := Some ''other''\<rparr>) toy_sys [''work'', ''beta''] toy_state)))"
proof -
  have p: "protocol toy_ssh_processor = ''SSH''"
    by code_simp
  then have h: "protocol toy_ssh_processor \<noteq> ''HTTPS'' \<or> \<not> push_via_token_in_https toy_ssh_processor
      \<or> (\<not> truthy (Some ''secret'') \<and> \<not> truthy (Some ''other''))"
    by simp
  have r: "Run [''git'', ''remote'', ''add'', ''origin'', ''git@github.com:octocat/beta.git''] [''work'', ''beta''] None
       \<in> set (trace (snd (process_project (toy_ssh_processor\<lparr>token := Some ''other''\<rparr>) toy_sys [''work'', ''beta''] toy_state)))"
    by code_simp
  show ?thesis
    using p r token_noninterference [OF h, of toy_sys "[''work'', ''beta'']" toy_state] by blast
qed

subsection \<open>The remote URL\<close>

lemma str_replace_absent:
  "\<not> occurs (a # as) s \<Longrightarrow> str_replace s (a # as) new = s"
  by (induction s) auto

lemma str_replace_https:
  "str_replace (''https://'' @ rest) ''https://'' new = new @ str_replace rest ''https://'' new"
  by (simp add: startswith_def)

lemma remote_url_for_ssh: "protocol self = ''SSH'' \<Longrightarrow> remote_url_for self repo = ssh_url repo"
  by (simp add: remote_url_for_def)

lemma remote_url_for_https_plain:
  "protocol self = ''HTTPS'' \<Longrightarrow> \<not> (push_via_token_in_https self \<and> truthy (token self)) \<Longrightarrow>
   remote_url_for self repo = clone_url repo"
  by (auto simp: remote_url_for_def)

lemma remote_url_for_https_token:
  assumes "protocol self = ''HTTPS''" "push_via_token_in_https self" "token self = Some t" "t \<noteq> []"
    and "clone_url repo = ''https://'' @ rest"
  shows "remote_url_for self repo
           = ''https://'' @ t @ ''@'' @ str_replace rest ''https://'' (''https://'' @ t @ ''@'')"
proof -
  have "remote_url_for self repo = str_replace (''https://'' @ rest) ''https://'' (''https://'' @ t @ ''@'')"
    using assms by (simp add: remote_url_for_def)
  then show ?thesis
    by (simp only: str_replace_https) simp
qed

lemma remove_origin_returns:
  "\<exists>w'. remove_origin sy cwd s
     = (Inr (), s\<lparr>world := w', trace := trace s @ [Run [''git'', ''remote'', ''remove'', ''origin''] cwd None]\<rparr>)"
  by (auto simp: remove_origin_def try_exception_def seq_def bind_def ret_def run_git_cmd_def Let_def
      split: prod.splits proc_outcome.splits)

lemma remote_step_events:
  assumes "github_manager self = Some gh"
    and "create_repo sy gh (name cwd) (private_repos self) [] False (Some b) s = (Inr repo, s1)"
  shows "new_events s1 (snd (remote_step self sy cwd b s)) =
            [Run [''git'', ''remote'', ''remove'', ''origin''] cwd None,
             Run [''git'', ''remote'', ''add'', ''origin'', remote_url_for self repo] cwd None]"
proof -
  obtain w' where ro: "remove_origin sy cwd s1
     = (Inr (), s1\<lparr>world := w', trace := trace s1 @ [Run [''git'', ''remote'', ''remove'', ''origin''] cwd None]\<rparr>)"
    using remove_origin_returns [of sy cwd s1] by (elim exE)
  show ?thesis
    using assms ro
    by (auto simp: remote_step_def bind_def seq_def git_def run_git_cmd_def say_def log_def
        new_events_def Let_def split: prod.splits proc_outcome.splits)
qed

text \<open>
  Claim C7. The remote URL. When a manager is given and \<^verbatim>\<open>create_repo\<close> has returned
  a repository, \<^verbatim>\<open>process_project\<close> removes \<^verbatim>\<open>origin\<close> and then adds it with the URL
  \<open>remote_url_for\<close>: the SSH URL for the protocol SSH, the HTTPS clone URL for HTTPS,
  and, for HTTPS with the embedding flag and a token \<open>t\<close> present, the clone URL
  \<^verbatim>\<open>https://rest\<close> rewritten to start with \<^verbatim>\<open>https://t@\<close>; it is exactly
  \<^verbatim>\<open>https://t@rest\<close> when \<^verbatim>\<open>https://\<close> does not occur again in \<open>rest\<close>. The rewriting
  comes before the command that adds the remote.
\<close>

theorem remote_url_matches_protocol:
  assumes "github_manager self = Some gh"
    and "create_repo sy gh (name cwd) (private_repos self) [] False (Some b) s = (Inr repo, s1)"
  shows "new_events s1 (snd (remote_step self sy cwd b s)) =
            [Run [''git'', ''remote'', ''remove'', ''origin''] cwd None,
             Run [''git'', ''remote'', ''add'', ''origin'', remote_url_for self repo] cwd None]
       \<and> (protocol self = ''SSH'' \<longrightarrow> remote_url_for self repo = ssh_url repo)
       \<and> (protocol self = ''HTTPS'' \<and> \<not> (push_via_token_in_https self \<and> truthy (token self))
            \<longrightarrow> remote_url_for self repo = clone_url repo)
       \<and> (\<forall>t rest. protocol self = ''HTTPS'' \<and> push_via_token_in_https self \<and> token self = Some t \<and> t \<noteq> []
                    \<and> clone_url repo = ''https://'' @ rest
            \<longrightarrow> (\<exists>tail. remote_url_for self repo = ''https://'' @ t @ ''@'' @ tail)
              \<and> (\<not> occurs ''https://'' rest \<longrightarrow> remote_url_for self repo = ''https://'' @ t @ ''@'' @ rest))"
proof (intro conjI allI impI)
  show "new_events s1 (snd (remote_step self sy cwd b s)) =
            [Run [''git'', ''remote'', ''remove'', ''origin''] cwd None,
             Run [''git'', ''remote'', ''add'', ''origin'', remote_url_for self repo] cwd None]"
    by (rule remote_step_events [OF assms])
next
  assume "protocol self = ''SSH''"
  then show "remote_url_for self repo = ssh_url repo"
    by (rule remote_url_for_ssh)
next
  assume "protocol self = ''HTTPS'' \<and> \<not> (push_via_token_in_https self \<and> truthy (token self))"
  then show "remote_url_for self repo = clone_url repo"
    by (simp add: remote_url_for_https_plain)
next
  fix t rest
  assume h: "protocol self = ''HTTPS'' \<and> push_via_token_in_https self \<and> token self = Some t \<and> t \<noteq> []
                    \<and> clone_url repo = ''https://'' @ rest"
  then have eq: "remote_url_for self repo
           = ''https://'' @ t @ ''@'' @ str_replace rest ''https://'' (''https://'' @ t @ ''@'')"
    by (intro remote_url_for_https_token) simp_all
  then show "\<exists>tail. remote_url_for self repo = ''https://'' @ t @ ''@'' @ tail"
    by blast
  assume "\<not> occurs ''https://'' rest"
  then show "remote_url_for self repo = ''https://'' @ t @ ''@'' @ rest"
    using eq by (simp add: str_replace_absent)
qed

theorem remote_url_matches_protocol_witness:
  "github_manager toy_embed_processor = Some toy_manager
   \<and> create_repo toy_sys toy_manager (name [''work'', ''beta'']) (private_repos toy_embed_processor) [] False (Some ''main'') toy_state
       = (Inr (toy_repo ''beta''), snd (create_repo toy_sys toy_manager ''beta'' False [] False (Some ''main'') toy_state))
   \<and> protocol toy_embed_processor = ''HTTPS'' \<and> push_via_token_in_https toy_embed_processor
   \<and> token toy_embed_processor = Some ''secret''
   \<and> clone_url (toy_repo ''beta'') = ''https://'' @ ''github.com/octocat/beta.git''
   \<and> \<not> occurs ''https://'' ''github.com/octocat/beta.git''
   \<and> remote_url_for toy_embed_processor (toy_repo ''beta'') = ''https://'' @ ''secret'' @ ''@'' @ ''github.com/octocat/beta.git''
   \<and> new_events (snd (create_repo toy_sys toy_manager ''beta'' False [] False (Some ''main'') toy_state))
        (snd (remote_step toy_embed_processor toy_sys [''work'', ''beta''] ''main'' toy_state)) =
            [Run [''git'', ''remote'', ''remove'', ''origin''] [''work'', ''beta''] None,
             Run [''git'', ''remote'', ''add'', ''origin'', remote_url_for toy_embed_processor (toy_repo ''beta'')]
               [''work'', ''beta''] None]"
proof -
  have h1: "github_manager toy_embed_processor = Some toy_manager"
    by code_simp
  have h2: "create_repo toy_sys toy_manager (name [''work'', ''beta'']) (private_repos toy_embed_processor) [] False (Some ''main'') toy_state
       = (Inr (toy_repo ''beta''), snd (create_repo toy_sys toy_manager ''beta'' False [] False (Some ''main'') toy_state))"
    by code_simp
  have h3: "protocol toy_embed_processor = ''HTTPS''" "push_via_token_in_https toy_embed_processor"
    "token toy_embed_processor = Some ''secret''"
    "clone_url (toy_repo ''beta'') = ''https://'' @ ''github.com/octocat/beta.git''"
    "\<not> occurs ''https://'' ''github.com/octocat/beta.git''"
    by code_simp+
  note inst = remote_url_matches_protocol [OF h1 h2]
  have "remote_url_for toy_embed_processor (toy_repo ''beta'') = ''https://'' @ ''secret'' @ ''@'' @ ''github.com/octocat/beta.git''"
    using inst h3 by blast
  then show ?thesis
    using h1 h2 h3 inst by (intro conjI) blast+
qed

subsection \<open>The repository on the hosting service\<close>

lemma create_repo_found:
  assumes "api_get_repo sy (gh_token gh) nm (world s) = Inr r"
  shows "create_repo sy gh nm priv description auto_init db s
          = (Inr r, s\<lparr>trace := trace s @ [ApiGetRepo nm],
                       logs := logs s @ [(INFO, YELLOW, ''Repo already exists on GitHub: '' @ nm)]\<rparr>)"
  using assms
  by (simp add: create_repo_def try_exception_def bind_def seq_def get_repo_def say_def log_def ret_def)

lemma create_repo_missing:
  assumes "api_get_repo sy (gh_token gh) nm (world s) = Inl e"
  shows "\<exists>evs. new_events s (snd (create_repo sy gh nm priv description auto_init db s))
           = ApiGetRepo nm # ApiCreateRepo nm priv description auto_init # evs
         \<and> \<not> list_ex is_create_request evs"
  using assms
  by (auto simp: create_repo_def try_exception_def bind_def seq_def get_repo_def say_def log_def
      ret_def raise_def user_create_repo_def repo_edit_def new_events_def
      split: prod.splits sum.splits exn.splits)

text \<open>
  Claim C4. \<^verbatim>\<open>create_repo\<close> is an idempotent create. When the lookup finds a repository
  of the given name under the account, that repository is returned, and the lookup is
  the only request made: the world is unchanged, nothing is created or edited. When the
  lookup fails, the next request creates a repository with the requested name and
  visibility and without generated files (\<^verbatim>\<open>auto_init\<close> false, as \<^verbatim>\<open>process_project\<close>
  calls it). A repository is requested exactly when the lookup has failed.
\<close>

theorem create_repo_idempotent:
  "(\<forall>r. api_get_repo sy (gh_token gh) nm (world s) = Inr r \<longrightarrow>
        create_repo sy gh nm priv [] False db s
          = (Inr r, s\<lparr>trace := trace s @ [ApiGetRepo nm],
                       logs := logs s @ [(INFO, YELLOW, ''Repo already exists on GitHub: '' @ nm)]\<rparr>))
 \<and> (\<forall>e. api_get_repo sy (gh_token gh) nm (world s) = Inl e \<longrightarrow>
        take 2 (new_events s (snd (create_repo sy gh nm priv [] False db s)))
          = [ApiGetRepo nm, ApiCreateRepo nm priv [] False])
 \<and> (list_ex is_create_request (new_events s (snd (create_repo sy gh nm priv [] False db s)))
      \<longleftrightarrow> isl (api_get_repo sy (gh_token gh) nm (world s)))"
proof (intro conjI allI impI)
  fix r assume "api_get_repo sy (gh_token gh) nm (world s) = Inr r"
  then show "create_repo sy gh nm priv [] False db s
          = (Inr r, s\<lparr>trace := trace s @ [ApiGetRepo nm],
                       logs := logs s @ [(INFO, YELLOW, ''Repo already exists on GitHub: '' @ nm)]\<rparr>)"
    by (rule create_repo_found)
next
  fix e assume "api_get_repo sy (gh_token gh) nm (world s) = Inl e"
  then show "take 2 (new_events s (snd (create_repo sy gh nm priv [] False db s)))
          = [ApiGetRepo nm, ApiCreateRepo nm priv [] False]"
    using create_repo_missing [of sy gh nm s e priv "[]" False db] by auto
next
  show "list_ex is_create_request (new_events s (snd (create_repo sy gh nm priv [] False db s)))
      \<longleftrightarrow> isl (api_get_repo sy (gh_token gh) nm (world s))"
  proof (cases "api_get_repo sy (gh_token gh) nm (world s)")
    case (Inl e)
    then show ?thesis
      using create_repo_missing [of sy gh nm s e priv "[]" False db] by auto
  next
    case (Inr r)
    then show ?thesis
      by (simp add: create_repo_found new_events_def)
  qed
qed

theorem create_repo_idempotent_witness:
  "api_get_repo toy_sys (gh_token toy_manager) ''beta'' (world toy_hosted_state) = Inr (toy_repo ''beta'')
 \<and> create_repo toy_sys toy_manager ''beta'' False [] False (Some ''main'') toy_hosted_state
      = (Inr (toy_repo ''beta''),
         toy_hosted_state\<lparr>trace := trace toy_hosted_state @ [ApiGetRepo ''beta''],
                           logs := logs toy_hosted_state @ [(INFO, YELLOW, ''Repo already exists on GitHub: '' @ ''beta'')]\<rparr>)
 \<and> api_get_repo toy_sys (gh_token toy_manager) ''alpha'' (world toy_hosted_state)
      = Inl (GithubException ''404 Not Found'')
 \<and> take 2 (new_events toy_hosted_state
              (snd (create_repo toy_sys toy_manager ''alpha'' True [] False (Some ''main'') toy_hosted_state)))
      = [ApiGetRepo ''alpha'', ApiCreateRepo ''alpha'' True [] False]"
proof -
  have h1: "api_get_repo toy_sys (gh_token toy_manager) ''beta'' (world toy_hosted_state) = Inr (toy_repo ''beta'')"
    by code_simp
  have h2: "api_get_repo toy_sys (gh_token toy_manager) ''alpha'' (world toy_hosted_state)
      = Inl (GithubException ''404 Not Found'')"
    by code_simp
  note a = create_repo_idempotent [of toy_sys toy_manager "''beta''" toy_hosted_state False "Some ''main''"]
  note b = create_repo_idempotent [of toy_sys toy_manager "''alpha''" toy_hosted_state True "Some ''main''"]
  show ?thesis
    using h1 h2 a b by (intro conjI) blast+
qed

subsection \<open>Branch operations\<close>

lemma started_ops_append:
  "prefix (trace (s0 :: 'w state)) (trace (s1 :: 'w state)) \<Longrightarrow> prefix (trace s1) (trace (s2 :: 'w state)) \<Longrightarrow>
   started_ops s0 s2 = started_ops s0 s1 @ started_ops s1 s2"
  by (auto simp: started_ops_def new_events_def prefix_def map_filter_def)

lemma started_ops_same: "started_ops s s = []"
  by (simp add: started_ops_def new_events_def)

lemma starts_ret: "starts [] (ret x)"
  by (simp add: starts_def ret_def started_ops_same)

lemma starts_seq:
  assumes "starts xs m1" "starts ys m2"
  shows "starts (xs @ ys) (seq m1 m2)"
  unfolding starts_def
proof (intro allI impI)
  fix s r s'
  assume h: "seq m1 m2 s = (r, s')"
  obtain r1 s1 where m1: "m1 s = (r1, s1)" by (cases "m1 s")
  have a: "prefix (trace s) (trace s1)" "prefix (started_ops s s1) xs"
    "\<not> isl r1 \<longrightarrow> started_ops s s1 = xs"
    using assms(1) m1 unfolding starts_def by blast+
  show "prefix (trace s) (trace s') \<and> prefix (started_ops s s') (xs @ ys)
      \<and> (\<not> isl r \<longrightarrow> started_ops s s' = xs @ ys)"
  proof (cases r1)
    case (Inl e)
    then have "r = Inl e" "s' = s1" using h m1 by (simp_all add: seq_def bind_def)
    then show ?thesis using a by simp
  next
    case (Inr x)
    then have m2: "m2 s1 = (r, s')" using h m1 by (simp add: seq_def bind_def)
    have b: "prefix (trace s1) (trace s')" "prefix (started_ops s1 s') ys"
      "\<not> isl r \<longrightarrow> started_ops s1 s' = ys"
      using assms(2) m2 unfolding starts_def by blast+
    have "started_ops s s1 = xs" using a(3) Inr by simp
    then have "started_ops s s' = xs @ started_ops s1 s'"
      using started_ops_append [OF a(1) b(1)] by simp
    then show ?thesis
      using a(1) b by (auto dest: prefix_order.trans)
  qed
qed

lemma starts_create_branch_op: "starts [Create nm] (create_branch_op sy cwd nm)"
  unfolding starts_def
  by (auto simp: create_branch_op_def try_cpe_def seq_def bind_def git_def run_git_cmd_def say_def
      log_def started_ops_def new_events_def Let_def
      split: prod.splits proc_outcome.splits sum.splits if_splits)

lemma starts_rename_branch_op: "starts [Rename old new] (rename_branch_op sy cwd old new)"
  unfolding starts_def
  by (auto simp: rename_branch_op_def try_cpe_def seq_def bind_def git_def run_git_cmd_def say_def
      log_def started_ops_def new_events_def Let_def
      split: prod.splits proc_outcome.splits sum.splits if_splits)

lemma starts_switch_branch_op: "starts [Switch nm] (switch_branch_op sy cwd nm)"
  unfolding starts_def
  by (auto simp: switch_branch_op_def try_cpe_def seq_def bind_def git_def run_git_cmd_def say_def
      log_def started_ops_def new_events_def Let_def
      split: prod.splits proc_outcome.splits sum.splits if_splits)

lemma starts_do_branch_operations:
  "starts (requested (do_branch_ops self)) (do_branch_operations self sy cwd)"
proof (cases "create (do_branch_ops self) = None \<and> rename (do_branch_ops self) = None
                \<and> switch (do_branch_ops self) = None")
  case True
  then show ?thesis
    by (simp add: do_branch_operations_def requested_def starts_ret)
next
  case False
  have a: "starts (if truthy (create (do_branch_ops self)) then [Create (the (create (do_branch_ops self)))] else [])
             (if truthy (create (do_branch_ops self))
              then create_branch_op sy cwd (the (create (do_branch_ops self))) else ret ())"
    by (simp add: starts_create_branch_op starts_ret)
  have b: "starts (case rename (do_branch_ops self) of Some (old, new) \<Rightarrow> [Rename old new] | None \<Rightarrow> [])
             (case rename (do_branch_ops self) of
                 Some (old, new) \<Rightarrow> rename_branch_op sy cwd old new
               | None \<Rightarrow> ret ())"
    by (simp add: starts_rename_branch_op starts_ret split: option.splits)
  have c: "starts (if truthy (switch (do_branch_ops self)) then [Switch (the (switch (do_branch_ops self)))] else [])
             (if truthy (switch (do_branch_ops self))
              then switch_branch_op sy cwd (the (switch (do_branch_ops self))) else ret ())"
    by (simp add: starts_switch_branch_op starts_ret)
  show ?thesis
    using starts_seq [OF a starts_seq [OF b c]]
    by (simp add: do_branch_operations_def requested_def Let_def starts_ret)
qed

subsection \<open>Phases of a project, and counting applied operations\<close>

lemma seq_assoc: "seq (seq a b) c = seq a (seq b c)"
  by (rule ext) (simp add: seq_def bind_def split: prod.splits sum.splits)

lemma process_project_phases:
  "process_project self sy p =
     seq (steps_before_push self sy p)
       (seq (push_step self sy p (branch_name_of self p))
         (seq (do_branch_operations self sy p)
           (seq (record_success p)
             (say INFO BRIGHT (''=== Finished: '' @ name p @ '' ==='' @ [CHR 0x0A])))))"
  by (simp add: process_project_def steps_before_push_def branch_name_of_def Let_def seq_assoc)

lemma applied_count_append:
  "prefix (logs (s0 :: 'w state)) (logs (s1 :: 'w state)) \<Longrightarrow> prefix (logs s1) (logs (s2 :: 'w state)) \<Longrightarrow>
   applied_count s0 s2 = applied_count s0 s1 + applied_count s1 s2"
  by (auto simp: applied_count_def new_logs_def prefix_def)

lemma applied_count_same: "applied_count s s = 0"
  by (simp add: applied_count_def new_logs_def)

lemma counts_ret: "counts (ret x)"
  by (simp add: counts_def ret_def applied_count_same)

lemma counts_seq:
  assumes "counts m1" "counts m2"
  shows "counts (seq m1 m2)"
  unfolding counts_def
proof (intro allI impI)
  fix s r s'
  assume h: "seq m1 m2 s = (r, s')"
  obtain r1 s1 where m1: "m1 s = (r1, s1)" by (cases "m1 s")
  have a: "prefix (trace s) (trace s1)" "prefix (logs s) (logs s1)"
    "applied_count s s1 \<le> length (started_ops s s1)"
    using assms(1) m1 unfolding counts_def by blast+
  show "prefix (trace s) (trace s') \<and> prefix (logs s) (logs s')
      \<and> applied_count s s' \<le> length (started_ops s s')"
  proof (cases r1)
    case (Inl e)
    then have "s' = s1" using h m1 by (simp add: seq_def bind_def)
    then show ?thesis using a by simp
  next
    case (Inr x)
    then have m2: "m2 s1 = (r, s')" using h m1 by (simp add: seq_def bind_def)
    have b: "prefix (trace s1) (trace s')" "prefix (logs s1) (logs s')"
      "applied_count s1 s' \<le> length (started_ops s1 s')"
      using assms(2) m2 unfolding counts_def by blast+
    have "applied_count s s' = applied_count s s1 + applied_count s1 s'"
      by (rule applied_count_append [OF a(2) b(2)])
    moreover have "started_ops s s' = started_ops s s1 @ started_ops s1 s'"
      by (rule started_ops_append [OF a(1) b(1)])
    ultimately show ?thesis
      using a b by (auto dest: prefix_order.trans)
  qed
qed

subsection \<open>One branch operation\<close>

lemma seq_ret_left: "seq (ret x) m = m"
  by (rule ext) (simp add: seq_def bind_def ret_def)

lemma run_all_result:
  "(case run_all sy cwd cs s of
      (Inl e, s') \<Rightarrow> \<not> all_succeed sy cwd cs (world s) \<and> logs s' = logs s
    | (Inr u, s') \<Rightarrow> all_succeed sy cwd cs (world s) \<and> logs s' = logs s)"
proof (induction cs arbitrary: s)
  case Nil
  show ?case by (simp add: ret_def)
next
  case (Cons c cs)
  obtain out w' where ex: "exec sy c cwd None (world s) = (out, w')"
    by (cases "exec sy c cwd None (world s)")
  let ?s1 = "s\<lparr>world := w', trace := trace s @ [Run c cwd None]\<rparr>"
  show ?case
  proof (cases out)
    case (SpawnFailed m)
    then show ?thesis
      using ex by (simp add: seq_def bind_def git_def run_git_cmd_def)
  next
    case (Completed rc)
    show ?thesis
    proof (cases "rc = 0")
      case False
      then show ?thesis
        using ex Completed by (simp add: seq_def bind_def git_def run_git_cmd_def)
    next
      case True
      have "run_all sy cwd (c # cs) s = run_all sy cwd cs ?s1"
        using ex Completed True by (simp add: seq_def bind_def git_def run_git_cmd_def)
      then show ?thesis
        using Cons [of ?s1] ex Completed True by (simp split: prod.splits sum.splits)
    qed
  qed
qed

text \<open>An operation: its commands, then the success record; a warning on a non-zero exit.\<close>

lemma operation_logs:
  assumes "op = try_cpe (seq (run_all sy cwd cs) (say l c m)) (\<lambda>e. say l' c' m')"
  shows "(all_succeed sy cwd cs (world s) \<longrightarrow>
            fst (op s) = Inr () \<and> new_logs s (snd (op s)) = [(l, c, m)])
       \<and> (\<not> all_succeed sy cwd cs (world s) \<longrightarrow>
            (fst (op s) = Inr () \<and> new_logs s (snd (op s)) = [(l', c', m')])
          \<or> (isl (fst (op s)) \<and> new_logs s (snd (op s)) = []))"
proof -
  obtain r1 s1 where ra: "run_all sy cwd cs s = (r1, s1)"
    by (cases "run_all sy cwd cs s")
  show ?thesis
  proof (cases r1)
    case (Inr u)
    then have "all_succeed sy cwd cs (world s)" "logs s1 = logs s"
      using run_all_result [of sy cwd cs s] ra by simp_all
    then show ?thesis
      using ra Inr assms by (simp add: try_cpe_def seq_def bind_def say_def log_def new_logs_def)
  next
    case (Inl e)
    then have "\<not> all_succeed sy cwd cs (world s)" "logs s1 = logs s"
      using run_all_result [of sy cwd cs s] ra by simp_all
    then show ?thesis
      using ra Inl assms by (simp add: try_cpe_def seq_def bind_def say_def log_def new_logs_def)
  qed
qed

lemma create_branch_op_alt:
  "create_branch_op sy cwd nm =
     try_cpe (seq (run_all sy cwd (commands_of (Create nm))) (say INFO GREEN (''Created and pushed branch '' @ nm)))
       (\<lambda>e. say WARNING YELLOW (''Could not create branch '' @ nm))"
  by (simp add: create_branch_op_def seq_assoc seq_ret_left)

lemma rename_branch_op_alt:
  "rename_branch_op sy cwd old new =
     try_cpe (seq (run_all sy cwd (commands_of (Rename old new)))
                (say INFO GREEN (''Renamed branch '' @ old @ '' -> '' @ new)))
       (\<lambda>e. say WARNING YELLOW (''Could not rename branch '' @ old @ '' -> '' @ new))"
  by (simp add: rename_branch_op_def seq_assoc seq_ret_left)

lemma switch_branch_op_alt:
  "switch_branch_op sy cwd nm =
     try_cpe (seq (run_all sy cwd (commands_of (Switch nm))) (say INFO GREEN (''Switched to branch '' @ nm)))
       (\<lambda>e. say WARNING YELLOW (''Could not switch to branch '' @ nm))"
  by (simp add: switch_branch_op_def seq_assoc seq_ret_left)

lemma success_records:
  "is_success_record (INFO, GREEN, ''Created and pushed branch '' @ nm)"
  "is_success_record (INFO, GREEN, ''Renamed branch '' @ old @ '' -> '' @ new)"
  "is_success_record (INFO, GREEN, ''Switched to branch '' @ nm)"
  "\<not> is_success_record (WARNING, c, m)"
  by (simp_all add: is_success_record_def startswith_def)

lemma operation_count:
  assumes "op = try_cpe (seq (run_all sy cwd cs) (say l c m)) (\<lambda>e. say l' c' m')"
    and "is_success_record (l, c, m)" and "\<not> is_success_record (l', c', m')"
  shows "applied_count s (snd (op s)) = (if all_succeed sy cwd cs (world s) then 1 else 0)"
  using operation_logs [OF assms(1), of s] assms(2,3)
  by (auto simp: applied_count_def)

lemma operation_returns:
  assumes "op = try_cpe (seq (run_all sy cwd cs) (say l c m)) (\<lambda>e. say l' c' m')"
    and "all_succeed sy cwd cs (world s)"
  shows "\<not> isl (fst (op s))"
  using operation_logs [OF assms(1), of s] assms(2) by simp

lemma create_applied_iff:
  "applied_count s (snd (create_branch_op sy cwd nm s))
     = (if all_succeed sy cwd (commands_of (Create nm)) (world s) then 1 else 0)"
  by (rule operation_count [OF create_branch_op_alt success_records(1) success_records(4)])

lemma rename_applied_iff:
  "applied_count s (snd (rename_branch_op sy cwd old new s))
     = (if all_succeed sy cwd (commands_of (Rename old new)) (world s) then 1 else 0)"
  by (rule operation_count [OF rename_branch_op_alt success_records(2) success_records(4)])

lemma switch_applied_iff:
  "applied_count s (snd (switch_branch_op sy cwd nm s))
     = (if all_succeed sy cwd (commands_of (Switch nm)) (world s) then 1 else 0)"
  by (rule operation_count [OF switch_branch_op_alt success_records(3) success_records(4)])

text \<open>An operation applies no more than it starts.\<close>

lemma counts_operation:
  assumes st: "starts [x] m" and k: "keeps m"
    and ap: "\<And>s :: 'w state. applied_count s (snd (m s)) = (if ok s then 1 else 0)"
    and ret: "\<And>s :: 'w state. ok s \<Longrightarrow> \<not> isl (fst (m s))"
  shows "counts m"
  unfolding counts_def
proof (intro allI impI)
  fix s r s'
  assume h: "m s = (r, s')"
  have p: "prefix (trace s) (trace s')" "prefix (logs s) (logs s')"
    using k h unfolding keeps_def by blast+
  have "applied_count s s' \<le> length (started_ops s s')"
  proof (cases "ok s")
    case True
    then have "\<not> isl r" using ret [of s] h by simp
    then have "started_ops s s' = [x]" using st h unfolding starts_def by blast
    then show ?thesis using ap [of s] h by simp
  next
    case False
    then show ?thesis using ap [of s] h by simp
  qed
  then show "prefix (trace s) (trace s') \<and> prefix (logs s) (logs s')
      \<and> applied_count s s' \<le> length (started_ops s s')"
    using p by simp
qed

lemma counts_create_branch_op: "counts (create_branch_op (sy :: 'w sys) cwd nm)"
proof (rule counts_operation [OF starts_create_branch_op keeps_create_branch_op create_applied_iff])
  fix s :: "'w state"
  assume "all_succeed sy cwd (commands_of (Create nm)) (world s)"
  then show "\<not> isl (fst (create_branch_op sy cwd nm s))"
    by (rule operation_returns [OF create_branch_op_alt])
qed

lemma counts_rename_branch_op: "counts (rename_branch_op (sy :: 'w sys) cwd old new)"
proof (rule counts_operation [OF starts_rename_branch_op keeps_rename_branch_op rename_applied_iff])
  fix s :: "'w state"
  assume "all_succeed sy cwd (commands_of (Rename old new)) (world s)"
  then show "\<not> isl (fst (rename_branch_op sy cwd old new s))"
    by (rule operation_returns [OF rename_branch_op_alt])
qed

lemma counts_switch_branch_op: "counts (switch_branch_op (sy :: 'w sys) cwd nm)"
proof (rule counts_operation [OF starts_switch_branch_op keeps_switch_branch_op switch_applied_iff])
  fix s :: "'w state"
  assume "all_succeed sy cwd (commands_of (Switch nm)) (world s)"
  then show "\<not> isl (fst (switch_branch_op sy cwd nm s))"
    by (rule operation_returns [OF switch_branch_op_alt])
qed

lemma counts_do_branch_operations: "counts (do_branch_operations self sy cwd)"
  unfolding do_branch_operations_def Let_def
  by (auto intro!: counts_seq counts_ret counts_create_branch_op counts_rename_branch_op
      counts_switch_branch_op split: option.splits)

subsection \<open>Branch operations after the push\<close>


lemma process_project_stops_before_push:
  assumes "steps_before_push self sy p s = (Inl e, s')"
  shows "process_project self sy p s = (Inl e, s')"
  using assms by (simp add: process_project_phases seq_def bind_def)

lemma process_project_stops_at_push:
  assumes "steps_before_push self sy p s = (Inr (), s4)"
    and "push_step self sy p (branch_name_of self p) s4 = (Inl e, s5)"
  shows "process_project self sy p s = (Inl e, s5)"
  using assms by (simp add: process_project_phases seq_def bind_def)

lemma process_project_after_push:
  assumes "steps_before_push self sy p s = (Inr (), s4)"
    and "push_step self sy p (branch_name_of self p) s4 = (Inr (), s5)"
  shows "trace (snd (process_project self sy p s)) = trace (snd (do_branch_operations self sy p s5))
       \<and> (logs (snd (process_project self sy p s)) = logs (snd (do_branch_operations self sy p s5))
          \<or> (\<exists>m. logs (snd (process_project self sy p s))
                   = logs (snd (do_branch_operations self sy p s5)) @ [(INFO, BRIGHT, m)]))"
proof -
  obtain r6 s6 where d: "do_branch_operations self sy p s5 = (r6, s6)"
    by (cases "do_branch_operations self sy p s5")
  show ?thesis
    using assms d
    by (cases r6)
       (simp_all add: process_project_phases seq_def bind_def record_success_def say_def log_def)
qed

lemma not_success_bright: "\<not> is_success_record (INFO, BRIGHT, m)"
  by (simp add: is_success_record_def)

lemma applied_count_after_push:
  assumes "steps_before_push self sy p s = (Inr (), s4)"
    and "push_step self sy p (branch_name_of self p) s4 = (Inr (), s5)"
  shows "applied_count s5 (snd (process_project self sy p s))
           = applied_count s5 (snd (do_branch_operations self sy p s5))"
proof -
  obtain r6 s6 where d: "do_branch_operations self sy p s5 = (r6, s6)"
    by (cases "do_branch_operations self sy p s5")
  have "prefix (logs s5) (logs s6)"
    using keeps_do_branch_operations d unfolding keeps_def by blast
  then obtain ls where ls: "logs s6 = logs s5 @ ls"
    by (auto simp: prefix_def)
  show ?thesis
    using process_project_after_push [OF assms] d ls
    by (auto simp: applied_count_def new_logs_def not_success_bright)
qed

lemma started_ops_after_push:
  assumes "steps_before_push self sy p s = (Inr (), s4)"
    and "push_step self sy p (branch_name_of self p) s4 = (Inr (), s5)"
  shows "new_events s5 (snd (process_project self sy p s))
           = new_events s5 (snd (do_branch_operations self sy p s5))"
    and "started_ops s5 (snd (process_project self sy p s))
           = started_ops s5 (snd (do_branch_operations self sy p s5))"
  using process_project_after_push [OF assms]
  by (simp_all add: started_ops_def new_events_def)

text \<open>
  Claim C3, as amended. For every project, \<^verbatim>\<open>process_project\<close> attempts branch operations
  only after the initial push has succeeded: it stops with the exception when a step
  before the push or the push itself raises. After a successful push the commands it
  runs are those of \<^verbatim>\<open>_do_branch_operations\<close>: the operations started are the first ones of
  the request, each at most once and in the order create, rename, switch, and no more
  operations are applied than started. An operation is applied, that is its success
  is logged, exactly when all of its git commands exit with status zero. So at most
  one branch operation is applied when the request contains at most one of the three.
\<close>

theorem branch_operations_after_push:
  "(\<forall>e s'. steps_before_push self sy p s = (Inl e, s') \<longrightarrow> process_project self sy p s = (Inl e, s'))
 \<and> (\<forall>s4 e s5. steps_before_push self sy p s = (Inr (), s4)
                \<and> push_step self sy p (branch_name_of self p) s4 = (Inl e, s5)
       \<longrightarrow> process_project self sy p s = (Inl e, s5))
 \<and> (\<forall>s4 s5. steps_before_push self sy p s = (Inr (), s4)
              \<and> push_step self sy p (branch_name_of self p) s4 = (Inr (), s5)
       \<longrightarrow> new_events s5 (snd (process_project self sy p s))
             = new_events s5 (snd (do_branch_operations self sy p s5))
         \<and> prefix (started_ops s5 (snd (process_project self sy p s))) (requested (do_branch_ops self))
         \<and> applied_count s5 (snd (process_project self sy p s))
             \<le> length (started_ops s5 (snd (process_project self sy p s)))
         \<and> (length (requested (do_branch_ops self)) \<le> 1
              \<longrightarrow> applied_count s5 (snd (process_project self sy p s)) \<le> 1))
 \<and> (\<forall>nm s0. applied_count s0 (snd (create_branch_op sy p nm s0))
       = (if all_succeed sy p (commands_of (Create nm)) (world s0) then 1 else 0))
 \<and> (\<forall>old new s0. applied_count s0 (snd (rename_branch_op sy p old new s0))
       = (if all_succeed sy p (commands_of (Rename old new)) (world s0) then 1 else 0))
 \<and> (\<forall>nm s0. applied_count s0 (snd (switch_branch_op sy p nm s0))
       = (if all_succeed sy p (commands_of (Switch nm)) (world s0) then 1 else 0))"
proof (intro conjI allI impI)
  fix e s' assume "steps_before_push self sy p s = (Inl e, s')"
  then show "process_project self sy p s = (Inl e, s')"
    by (rule process_project_stops_before_push)
next
  fix s4 e s5
  assume "steps_before_push self sy p s = (Inr (), s4)
                \<and> push_step self sy p (branch_name_of self p) s4 = (Inl e, s5)"
  then show "process_project self sy p s = (Inl e, s5)"
    by (simp add: process_project_stops_at_push)
next
  fix s4 s5
  assume h: "steps_before_push self sy p s = (Inr (), s4)
              \<and> push_step self sy p (branch_name_of self p) s4 = (Inr (), s5)"
  then have b: "steps_before_push self sy p s = (Inr (), s4)"
    and q: "push_step self sy p (branch_name_of self p) s4 = (Inr (), s5)"
    by simp_all
  obtain r6 s6 where d: "do_branch_operations self sy p s5 = (r6, s6)"
    by (cases "do_branch_operations self sy p s5")
  have st: "prefix (started_ops s5 s6) (requested (do_branch_ops self))"
    using starts_do_branch_operations [of self sy p] d unfolding starts_def by blast
  have ct: "applied_count s5 s6 \<le> length (started_ops s5 s6)"
    using counts_do_branch_operations [of self sy p] d unfolding counts_def by blast
  show "new_events s5 (snd (process_project self sy p s))
             = new_events s5 (snd (do_branch_operations self sy p s5))"
    by (rule started_ops_after_push(1) [OF b q])
  show p: "prefix (started_ops s5 (snd (process_project self sy p s))) (requested (do_branch_ops self))"
    using st d by (simp add: started_ops_after_push(2) [OF b q])
  show c: "applied_count s5 (snd (process_project self sy p s))
             \<le> length (started_ops s5 (snd (process_project self sy p s)))"
    using ct d by (simp add: started_ops_after_push(2) [OF b q] applied_count_after_push [OF b q])
  assume "length (requested (do_branch_ops self)) \<le> 1"
  then show "applied_count s5 (snd (process_project self sy p s)) \<le> 1"
    using c prefix_length_le [OF p] by linarith
next
  fix nm s0
  show "applied_count s0 (snd (create_branch_op sy p nm s0))
       = (if all_succeed sy p (commands_of (Create nm)) (world s0) then 1 else 0)"
    by (rule create_applied_iff)
next
  fix old new s0
  show "applied_count s0 (snd (rename_branch_op sy p old new s0))
       = (if all_succeed sy p (commands_of (Rename old new)) (world s0) then 1 else 0)"
    by (rule rename_applied_iff)
next
  fix nm s0
  show "applied_count s0 (snd (switch_branch_op sy p nm s0))
       = (if all_succeed sy p (commands_of (Switch nm)) (world s0) then 1 else 0)"
    by (rule switch_applied_iff)
qed

theorem branch_operations_after_push_witness:
  "steps_before_push toy_one_op toy_sys [''work'', ''ghost''] toy_state
     = (Inl (OSError ''No such file or directory''),
        snd (steps_before_push toy_one_op toy_sys [''work'', ''ghost''] toy_state))
 \<and> process_project toy_one_op toy_sys [''work'', ''ghost''] toy_state
     = (Inl (OSError ''No such file or directory''),
        snd (steps_before_push toy_one_op toy_sys [''work'', ''ghost''] toy_state))
 \<and> steps_before_push toy_one_op toy_sys [''work'', ''alpha''] toy_state
     = (Inr (), snd (steps_before_push toy_one_op toy_sys [''work'', ''alpha''] toy_state))
 \<and> push_step toy_one_op toy_sys [''work'', ''alpha''] (branch_name_of toy_one_op [''work'', ''alpha''])
       (snd (steps_before_push toy_one_op toy_sys [''work'', ''alpha''] toy_state))
     = (Inl (RuntimeError ''Failed to push alpha: Command git push -u origin main returned non-zero exit status''),
        snd (push_step toy_one_op toy_sys [''work'', ''alpha''] (branch_name_of toy_one_op [''work'', ''alpha''])
               (snd (steps_before_push toy_one_op toy_sys [''work'', ''alpha''] toy_state))))
 \<and> process_project toy_one_op toy_sys [''work'', ''alpha''] toy_state
     = (Inl (RuntimeError ''Failed to push alpha: Command git push -u origin main returned non-zero exit status''),
        snd (push_step toy_one_op toy_sys [''work'', ''alpha''] (branch_name_of toy_one_op [''work'', ''alpha''])
               (snd (steps_before_push toy_one_op toy_sys [''work'', ''alpha''] toy_state))))
 \<and> steps_before_push toy_one_op toy_sys [''work'', ''beta''] toy_state
     = (Inr (), snd (steps_before_push toy_one_op toy_sys [''work'', ''beta''] toy_state))
 \<and> push_step toy_one_op toy_sys [''work'', ''beta''] (branch_name_of toy_one_op [''work'', ''beta''])
       (snd (steps_before_push toy_one_op toy_sys [''work'', ''beta''] toy_state))
     = (Inr (), toy_pushed_state)
 \<and> length (requested (do_branch_ops toy_one_op)) \<le> 1
 \<and> applied_count toy_pushed_state (snd (process_project toy_one_op toy_sys [''work'', ''beta''] toy_state)) \<le> 1
 \<and> prefix (started_ops toy_pushed_state (snd (process_project toy_one_op toy_sys [''work'', ''beta''] toy_state)))
      (requested (do_branch_ops toy_one_op))"
proof -
  have h1: "steps_before_push toy_one_op toy_sys [''work'', ''ghost''] toy_state
     = (Inl (OSError ''No such file or directory''),
        snd (steps_before_push toy_one_op toy_sys [''work'', ''ghost''] toy_state))"
    by code_simp
  have h2: "steps_before_push toy_one_op toy_sys [''work'', ''alpha''] toy_state
     = (Inr (), snd (steps_before_push toy_one_op toy_sys [''work'', ''alpha''] toy_state))"
    by code_simp
  have h3: "push_step toy_one_op toy_sys [''work'', ''alpha''] (branch_name_of toy_one_op [''work'', ''alpha''])
       (snd (steps_before_push toy_one_op toy_sys [''work'', ''alpha''] toy_state))
     = (Inl (RuntimeError ''Failed to push alpha: Command git push -u origin main returned non-zero exit status''),
        snd (push_step toy_one_op toy_sys [''work'', ''alpha''] (branch_name_of toy_one_op [''work'', ''alpha''])
               (snd (steps_before_push toy_one_op toy_sys [''work'', ''alpha''] toy_state))))"
    by code_simp
  have h4: "steps_before_push toy_one_op toy_sys [''work'', ''beta''] toy_state
     = (Inr (), snd (steps_before_push toy_one_op toy_sys [''work'', ''beta''] toy_state))"
    by code_simp
  have h5: "push_step toy_one_op toy_sys [''work'', ''beta''] (branch_name_of toy_one_op [''work'', ''beta''])
       (snd (steps_before_push toy_one_op toy_sys [''work'', ''beta''] toy_state))
     = (Inr (), toy_pushed_state)"
    by code_simp
  have h6: "length (requested (do_branch_ops toy_one_op)) \<le> 1"
    by code_simp
  note a = branch_operations_after_push [of toy_one_op toy_sys "[''work'', ''ghost'']" toy_state]
  note b = branch_operations_after_push [of toy_one_op toy_sys "[''work'', ''alpha'']" toy_state]
  note c = branch_operations_after_push [of toy_one_op toy_sys "[''work'', ''beta'']" toy_state]
  have a': "process_project toy_one_op toy_sys [''work'', ''ghost''] toy_state
     = (Inl (OSError ''No such file or directory''),
        snd (steps_before_push toy_one_op toy_sys [''work'', ''ghost''] toy_state))"
    using a h1 by blast
  have b': "process_project toy_one_op toy_sys [''work'', ''alpha''] toy_state
     = (Inl (RuntimeError ''Failed to push alpha: Command git push -u origin main returned non-zero exit status''),
        snd (push_step toy_one_op toy_sys [''work'', ''alpha''] (branch_name_of toy_one_op [''work'', ''alpha''])
               (snd (steps_before_push toy_one_op toy_sys [''work'', ''alpha''] toy_state))))"
    using b h2 h3 by blast
  have c': "applied_count toy_pushed_state (snd (process_project toy_one_op toy_sys [''work'', ''beta''] toy_state)) \<le> 1"
    "prefix (started_ops toy_pushed_state (snd (process_project toy_one_op toy_sys [''work'', ''beta''] toy_state)))
      (requested (do_branch_ops toy_one_op))"
    using c h4 h5 h6 by blast+
  show ?thesis
    using h1 h2 h3 h4 h5 h6 a' b' c' by (intro conjI)
qed

text \<open>
  Claim C3 as stated fails: with a request to create \<^verbatim>\<open>dev\<close> and to switch to \<^verbatim>\<open>main\<close>,
  \<^verbatim>\<open>process_project\<close> applies two branch operations after the initial push of \<^verbatim>\<open>beta\<close>.
\<close>

theorem two_branch_operations_counterexample:
  "steps_before_push toy_two_ops toy_sys [''work'', ''beta''] toy_state
     = (Inr (), snd (steps_before_push toy_two_ops toy_sys [''work'', ''beta''] toy_state))
 \<and> push_step toy_two_ops toy_sys [''work'', ''beta''] (branch_name_of toy_two_ops [''work'', ''beta''])
       (snd (steps_before_push toy_two_ops toy_sys [''work'', ''beta''] toy_state))
     = (Inr (), toy_pushed_state)
 \<and> new_events toy_pushed_state (snd (process_project toy_two_ops toy_sys [''work'', ''beta''] toy_state))
     = [Run [''git'', ''checkout'', ''-b'', ''dev''] [''work'', ''beta''] None,
        Run [''git'', ''push'', ''-u'', ''origin'', ''dev''] [''work'', ''beta''] None,
        Run [''git'', ''checkout'', ''main''] [''work'', ''beta''] None]
 \<and> all_succeed toy_sys [''work'', ''beta''] (commands_of (Create ''dev'')) (world toy_pushed_state)
 \<and> applied_count toy_pushed_state (snd (process_project toy_two_ops toy_sys [''work'', ''beta''] toy_state)) = 2
 \<and> \<not> applied_count toy_pushed_state (snd (process_project toy_two_ops toy_sys [''work'', ''beta''] toy_state)) \<le> 1"
  by code_simp

subsection \<open>The severity of a command failure\<close>











lemma git_raises:
  "exec sy args cwd None (world s) = (Completed rc, w') \<Longrightarrow> rc \<noteq> 0 \<Longrightarrow>
   git sy args cwd s = (Inl (CalledProcessError args rc), s\<lparr>world := w', trace := trace s @ [Run args cwd None]\<rparr>)"
  by (simp add: git_def run_git_cmd_def)




lemma init_step_fatal:
  assumes "\<not> path_exists sy (cwd @ [''.git'']) (world s)"
    and "exec sy [''git'', ''init''] cwd None (world s) = (Completed rc, w')" "rc \<noteq> 0"
  shows "fst (init_step sy cwd s) = Inl (CalledProcessError [''git'', ''init''] rc)"
  using assms
  by (simp add: init_step_def seq_def bind_def say_def log_def git_def run_git_cmd_def)






subsection \<open>The exit status\<close>


















end
